theory Spec2Isabelle
  imports Complex_Main "HOL-Library.Sublist"
begin

section \<open>Smart but friendly passwords: the validator\<close>

text \<open>
  A shallow embedding of \<^verbatim>\<open>smart_but_friendly_passwords.py\<close>.

  Character model. A Python \<^verbatim>\<open>str\<close> is a sequence of code points. Here a string is a
  \<^typ>\<open>char list\<close> and each \<^typ>\<open>char\<close> stands for one code point in the range
  U+0000 to U+00FF; \<^verbatim>\<open>len\<close> is \<^const>\<open>length\<close>. The predicates \<^verbatim>\<open>str.islower\<close>,
  \<^verbatim>\<open>str.isupper\<close>, \<^verbatim>\<open>str.isdigit\<close>, \<^verbatim>\<open>str.isalpha\<close>, \<^verbatim>\<open>str.isspace\<close>, the
  method \<^verbatim>\<open>str.lower\<close> and the regular-expression classes \<^verbatim>\<open>\d\<close> and \<^verbatim>\<open>\w\<close> are
  written out as CPython 3 defines them on that range. Code points above U+00FF are
  outside the model.

  Number model. Python's unbounded \<^verbatim>\<open>int\<close> is \<^typ>\<open>nat\<close> for lengths and counters
  and \<^typ>\<open>int\<close> for the score and for differences of code points. The three true
  divisions of the source produce floats that are only ever compared with the
  literals \<^verbatim>\<open>0.60\<close>, \<^verbatim>\<open>0.30\<close> and \<^verbatim>\<open>0.2\<close>; the quotient is modelled as the exact
  rational and the literals as 3/5, 3/10 and 1/5. Float division and literal
  conversion both round to nearest, so the float comparison and the exact one can
  only differ when the exact quotient is within about \<open>10\<^sup>-\<^sup>1\<^sup>6\<close> of the literal, which
  needs a divisor above \<open>10\<^sup>1\<^sup>5\<close>.

  Errors. The source has no \<^verbatim>\<open>raise\<close>; what could raise is indexing a string
  (IndexError) and true division (ZeroDivisionError). Both are modelled as checked
  operations with results in \<open>error + 'a\<close>, and every function that uses them
  returns such a result.
\<close>

subsection \<open>Characters\<close>

definition ord :: "char \<Rightarrow> nat" where
  "ord c = of_char c"

definition chr :: "nat \<Rightarrow> char" where
  "chr n = char_of n"

definition in_range :: "nat \<Rightarrow> nat \<Rightarrow> char \<Rightarrow> bool" where
  "in_range lo hi c = (lo \<le> ord c \<and> ord c \<le> hi)"

text \<open>\<^verbatim>\<open>c.islower()\<close>: a-z, the ordinal indicators, the micro sign, and the
  lower-case letters of Latin-1.\<close>

definition islower :: "char \<Rightarrow> bool" where
  "islower c = (in_range 97 122 c \<or> ord c = 170 \<or> ord c = 181 \<or> ord c = 186
     \<or> in_range 223 246 c \<or> in_range 248 255 c)"

text \<open>\<^verbatim>\<open>c.isupper()\<close>: A-Z and the upper-case letters of Latin-1.\<close>

definition isupper :: "char \<Rightarrow> bool" where
  "isupper c = (in_range 65 90 c \<or> in_range 192 214 c \<or> in_range 216 222 c)"

text \<open>\<^verbatim>\<open>c.isdigit()\<close>: 0-9 and the superscript digits 1, 2, 3.\<close>

definition isdigit :: "char \<Rightarrow> bool" where
  "isdigit c = (in_range 48 57 c \<or> in_range 178 179 c \<or> ord c = 185)"

definition isalpha :: "char \<Rightarrow> bool" where
  "isalpha c = (islower c \<or> isupper c)"

text \<open>\<^verbatim>\<open>c.isspace()\<close>, which is also what \<^verbatim>\<open>str.strip()\<close> removes: tab to carriage
  return, the four separators U+001C to U+001F, space, next line (U+0085) and
  no-break space (U+00A0).\<close>

definition isspace :: "char \<Rightarrow> bool" where
  "isspace c = (in_range 9 13 c \<or> in_range 28 32 c \<or> ord c = 133 \<or> ord c = 160)"

text \<open>\<^verbatim>\<open>string.punctuation\<close>.\<close>

definition punctuation :: string where
  "punctuation = [CHR 0x21, CHR 0x22, CHR 0x23, CHR 0x24, CHR 0x25, CHR 0x26, CHR 0x27,
     CHR 0x28, CHR 0x29, CHR 0x2A, CHR 0x2B, CHR 0x2C, CHR 0x2D, CHR 0x2E, CHR 0x2F,
     CHR 0x3A, CHR 0x3B, CHR 0x3C, CHR 0x3D, CHR 0x3E, CHR 0x3F, CHR 0x40,
     CHR 0x5B, CHR 0x5C, CHR 0x5D, CHR 0x5E, CHR 0x5F, CHR 0x60,
     CHR 0x7B, CHR 0x7C, CHR 0x7D, CHR 0x7E]"

text \<open>\<^verbatim>\<open>c.lower()\<close> on one character: the upper-case letters move up by 32, every
  other character stays.\<close>

definition lower_char :: "char \<Rightarrow> char" where
  "lower_char c = (if isupper c then chr (ord c + 32) else c)"

text \<open>\<^verbatim>\<open>s.lower()\<close>.\<close>

definition lower :: "string \<Rightarrow> string" where
  "lower s = map lower_char s"

text \<open>The regular-expression classes \<^verbatim>\<open>[A-Z]\<close>, \<^verbatim>\<open>[a-z]\<close> and \<^verbatim>\<open>[A-Za-z]\<close>, and the
  classes \<^verbatim>\<open>\d\<close> (decimal digit) and \<^verbatim>\<open>\w\<close> (alphanumeric in the sense of
  \<^verbatim>\<open>str.isalnum\<close>, or underscore) on the code points up to U+00FF. Both \<^verbatim>\<open>\d\<close> and
  \<^verbatim>\<open>\w\<close> have members above U+00FF; \<open>re_digit_u\<close> and \<open>re_word_u\<close> below are the
  two classes on every code point.\<close>

definition re_upper :: "char \<Rightarrow> bool" where
  "re_upper c = in_range 65 90 c"

definition re_lower :: "char \<Rightarrow> bool" where
  "re_lower c = in_range 97 122 c"

definition re_alpha :: "char \<Rightarrow> bool" where
  "re_alpha c = (re_upper c \<or> re_lower c)"

definition re_digit :: "char \<Rightarrow> bool" where
  "re_digit c = in_range 48 57 c"

definition re_word :: "char \<Rightarrow> bool" where
  "re_word c = (isalpha c \<or> isdigit c \<or> in_range 188 190 c \<or> ord c = 95)"

subsection \<open>String operations of the Python library\<close>

text \<open>\<^verbatim>\<open>s.strip()\<close>: drop the leading and the trailing whitespace.\<close>

definition strip :: "string \<Rightarrow> string" where
  "strip s = rev (dropWhile isspace (rev (dropWhile isspace s)))"

text \<open>\<^verbatim>\<open>s[i:j]\<close> for indices that are not negative; a slice never raises.\<close>

definition slice :: "'a list \<Rightarrow> nat \<Rightarrow> nat \<Rightarrow> 'a list" where
  "slice xs i j = take (j - i) (drop i xs)"

text \<open>\<^verbatim>\<open>sub in s\<close> on strings is \<^term>\<open>sublist sub s\<close>: \<open>s\<close> is \<open>ps @ sub @ ss\<close> for
  some \<open>ps\<close> and \<open>ss\<close>.\<close>

text \<open>\<^verbatim>\<open>s.count(sub)\<close>: the number of occurrences of \<open>sub\<close> in \<open>s\<close> that do not
  overlap, found scanning from the left; the empty string occurs \<open>len(s) + 1\<close> times.
  \<open>count_scan\<close> carries the number of characters still covered by the last
  occurrence.\<close>

fun count_scan :: "string \<Rightarrow> string \<Rightarrow> nat \<Rightarrow> nat" where
  "count_scan sub [] skip = 0"
| "count_scan sub (c # cs) skip =
     (if 0 < skip then count_scan sub cs (skip - 1)
      else if prefix sub (c # cs) then 1 + count_scan sub cs (length sub - 1)
      else count_scan sub cs 0)"

definition count :: "string \<Rightarrow> string \<Rightarrow> nat" where
  "count s sub = (if sub = [] then length s + 1 else count_scan sub s 0)"

text \<open>\<^verbatim>\<open>re.findall(p, s)\<close> for a pattern without groups that never matches the empty
  string: scan from the left; where the pattern matches, take the match and go on
  behind it, else move one character on. The pattern is given as the function that
  returns its match at the start of a string.\<close>

fun findall_scan :: "(string \<Rightarrow> string option) \<Rightarrow> string \<Rightarrow> nat \<Rightarrow> string list" where
  "findall_scan m [] skip = []"
| "findall_scan m (c # cs) skip =
     (if 0 < skip then findall_scan m cs (skip - 1)
      else (case m (c # cs) of
              None \<Rightarrow> findall_scan m cs 0
            | Some t \<Rightarrow> t # findall_scan m cs (length t - 1)))"

definition findall :: "(string \<Rightarrow> string option) \<Rightarrow> string \<Rightarrow> string list" where
  "findall m s = findall_scan m s 0"

text \<open>The pattern \<^verbatim>\<open>[A-Za-z]{7,}\<close>: the repetition is greedy and nothing follows it.\<close>

definition match_alpha7 :: "string \<Rightarrow> string option" where
  "match_alpha7 s = (let t = takeWhile re_alpha s in if 7 \<le> length t then Some t else None)"

text \<open>The pattern \<^verbatim>\<open>[A-Z][a-z]{2,}\<close>.\<close>

definition match_camel :: "string \<Rightarrow> string option" where
  "match_camel s = (case s of
       [] \<Rightarrow> None
     | c # cs \<Rightarrow> if re_upper c
                then (let t = takeWhile re_lower cs in if 2 \<le> length t then Some (c # t) else None)
                else None)"

text \<open>\<^verbatim>\<open>re.split(r"[^A-Za-z]+", s)\<close>: the pieces between the maximal runs of
  characters that are not ASCII letters, the empty pieces at the two ends
  included. \<open>cur\<close> is the piece being read, reversed; \<open>in_sep\<close> says that
  the last character belonged to a separator.\<close>

fun split_scan :: "string \<Rightarrow> string \<Rightarrow> bool \<Rightarrow> string list" where
  "split_scan [] cur in_sep = [rev cur]"
| "split_scan (c # cs) cur in_sep =
     (if re_alpha c then split_scan cs (c # cur) False
      else if in_sep then split_scan cs cur True
      else rev cur # split_scan cs [] True)"

definition split_nonalpha :: "string \<Rightarrow> string list" where
  "split_nonalpha s = split_scan s [] False"

text \<open>\<^verbatim>\<open>re.search(r"\b(19|20)\d{2}\b", s) is not None\<close>. \<^verbatim>\<open>\b\<close> holds between two
  neighbours exactly one of which is a word character, the outside of the string
  counting as not a word character. \<open>year_at prev s\<close> says that the pattern
  matches at the start of \<open>s\<close> when \<open>prev\<close> is the character before it.\<close>

definition word_boundary :: "char option \<Rightarrow> char option \<Rightarrow> bool" where
  "word_boundary a b =
     ((case a of None \<Rightarrow> False | Some c \<Rightarrow> re_word c)
        \<noteq> (case b of None \<Rightarrow> False | Some c \<Rightarrow> re_word c))"

definition year_at :: "char option \<Rightarrow> string \<Rightarrow> bool" where
  "year_at prev s = (case s of
       c1 # c2 # c3 # c4 # rest \<Rightarrow>
         word_boundary prev (Some c1)
         \<and> ([c1, c2] = ''19'' \<or> [c1, c2] = ''20'')
         \<and> re_digit c3 \<and> re_digit c4
         \<and> word_boundary (Some c4) (case rest of [] \<Rightarrow> None | c5 # _ \<Rightarrow> Some c5)
     | _ \<Rightarrow> False)"

fun year_scan :: "char option \<Rightarrow> string \<Rightarrow> bool" where
  "year_scan prev [] = False"
| "year_scan prev (c # cs) = (year_at prev (c # cs) \<or> year_scan (Some c) cs)"

definition search_year :: "string \<Rightarrow> bool" where
  "search_year s = year_scan None s"

subsection \<open>Exceptions, checked operations and loops\<close>

datatype error = IndexError | ZeroDivisionError

text \<open>Sequencing: an exception raised by the first computation is the result.\<close>

definition and_then :: "error + 'a \<Rightarrow> ('a \<Rightarrow> error + 'b) \<Rightarrow> error + 'b" where
  "and_then r f = (case r of Inl e \<Rightarrow> Inl e | Inr v \<Rightarrow> f v)"

text \<open>\<^verbatim>\<open>s[i]\<close> for an index that is not negative.\<close>

definition getitem :: "'a list \<Rightarrow> nat \<Rightarrow> error + 'a" where
  "getitem xs i = (if i < length xs then Inr (xs ! i) else Inl IndexError)"

text \<open>\<^verbatim>\<open>a / b\<close> on two integers that are not negative.\<close>

definition truediv :: "nat \<Rightarrow> nat \<Rightarrow> error + rat" where
  "truediv a b = (if b = 0 then Inl ZeroDivisionError else Inr (of_nat a / of_nat b))"

text \<open>\<^verbatim>\<open>for i in idx: body\<close> on a state, stopping at the first exception.\<close>

fun for_loop :: "'i list \<Rightarrow> ('i \<Rightarrow> 's \<Rightarrow> error + 's) \<Rightarrow> 's \<Rightarrow> error + 's" where
  "for_loop [] body st = Inr st"
| "for_loop (i # idx) body st =
     (case body i st of Inl e \<Rightarrow> Inl e | Inr st' \<Rightarrow> for_loop idx body st')"

subsection \<open>Heuristic helpers\<close>

text \<open>\<^verbatim>\<open>_longest_linear_sequence\<close>. The inner function \<^verbatim>\<open>step\<close> returns \<^verbatim>\<open>None\<close> when
  an argument is not a single character, which the type \<^typ>\<open>char\<close> excludes. The
  loop state is \<open>(best, cur, last_step)\<close>; the index \<open>i\<close> starts at 1, so
  \<open>i - 1\<close> is its predecessor.\<close>

definition step :: "char \<Rightarrow> char \<Rightarrow> int option" where
  "step a b = Some (int (ord b) - int (ord a))"

definition lls_body :: "string \<Rightarrow> nat \<Rightarrow> nat \<times> nat \<times> int option \<Rightarrow> error + (nat \<times> nat \<times> int option)" where
  "lls_body s i state = (case state of (best, cur, last_step) \<Rightarrow>
     and_then (getitem s (i - 1)) (\<lambda>a.
     and_then (getitem s i) (\<lambda>b.
       let st = step a b in
       if st = Some 1 \<or> st = Some (- 1) then
         (let cur = (if last_step = st then cur + 1 else 2)
          in Inr (max best cur, cur, st))
       else Inr (best, 1, None))))"

definition longest_linear_sequence :: "string \<Rightarrow> error + nat" where
  "longest_linear_sequence pw =
     (if pw = [] then Inr 0
      else let s = map (\<lambda>ch. if isalpha ch then lower_char ch else ch) pw in
        and_then (for_loop [1 ..< length s] (lls_body s) (1, 1, None))
          (\<lambda>(best, cur, last_step). Inr best))"

text \<open>\<^verbatim>\<open>_longest_substring_on_line\<close>. \<open>lsol_step\<close> is the body of the inner loop
  and \<open>lsol_inner\<close> the inner loop, that is the body of the outer one. The range
  of the inner loop is computed once, from the value \<open>best\<close> has when it starts.\<close>

definition lsol_step :: "string \<Rightarrow> string \<Rightarrow> nat \<Rightarrow> nat \<Rightarrow> nat \<Rightarrow> nat" where
  "lsol_step text line i j best =
     (if sublist (slice text i j) line then max best (j - i) else best)"

definition lsol_inner :: "string \<Rightarrow> string \<Rightarrow> nat \<Rightarrow> nat \<Rightarrow> nat" where
  "lsol_inner text line i best =
     fold (lsol_step text line i) [i + best + 1 ..< min (length text) (i + 12) + 1] best"

definition longest_substring_on_line :: "string \<Rightarrow> string \<Rightarrow> nat" where
  "longest_substring_on_line text line =
     fold (lsol_inner text line) [0 ..< length text] 1"

text \<open>\<^verbatim>\<open>_longest_keyboard_walk\<close>; \<open>walk_step\<close> is the body of its loop over the
  rows.\<close>

definition rows :: "string list" where
  "rows = [''`1234567890-='', ''qwertyuiop'', ''asdfghjkl'', ''zxcvbnm'']"

definition walk_step :: "string \<Rightarrow> string \<Rightarrow> nat \<Rightarrow> nat" where
  "walk_step lowers row best =
     (let best = max best (longest_substring_on_line lowers row)
      in max best (longest_substring_on_line lowers (rev row)))"

definition longest_keyboard_walk :: "string \<Rightarrow> nat" where
  "longest_keyboard_walk pw = (let lowers = lower pw in fold (walk_step lowers) rows 1)"

text \<open>\<^verbatim>\<open>_max_same_char_run\<close>. The loop state is \<open>(best, current)\<close>.\<close>

definition mscr_body :: "string \<Rightarrow> nat \<Rightarrow> nat \<times> nat \<Rightarrow> error + (nat \<times> nat)" where
  "mscr_body pw i state = (case state of (best, current) \<Rightarrow>
     and_then (getitem pw i) (\<lambda>a.
     and_then (getitem pw (i - 1)) (\<lambda>b.
       if a = b then (let current = current + 1 in Inr (max best current, current))
       else Inr (best, 1))))"

definition max_same_char_run :: "string \<Rightarrow> error + nat" where
  "max_same_char_run pw =
     and_then (for_loop [1 ..< length pw] (mscr_body pw) (1, 1))
       (\<lambda>(best, current). Inr best)"

text \<open>\<^verbatim>\<open>_is_repeated_short_chunk\<close>: two loops over \<open>k\<close> in 1, 2, 3, each returning
  \<^verbatim>\<open>True\<close> at the first \<open>k\<close> whose test holds.\<close>

definition is_repeated_short_chunk :: "string \<Rightarrow> bool" where
  "is_repeated_short_chunk pw =
     (let n = length pw in
      if list_ex (\<lambda>k. n mod k = 0 \<and>
            (let chunk = slice pw 0 k; repeats = n div k
             in 3 \<le> repeats \<and> concat (replicate repeats chunk) = pw)) [1, 2, 3]
      then True
      else if list_ex (\<lambda>k.
            (let chunk = slice pw 0 k
             in 3 \<le> count pw chunk \<and> length chunk * 3 \<le> n)) [1, 2, 3]
      then True
      else False)"

text \<open>\<^verbatim>\<open>_looks_like_consonant_smash\<close>: the loop over the tokens returns \<^verbatim>\<open>True\<close> at
  the first token with too few vowels, and divides for every token before it.\<close>

definition vowels :: string where
  "vowels = ''aeiouAEIOU''"

fun smash_loop :: "string list \<Rightarrow> error + bool" where
  "smash_loop [] = Inr False"
| "smash_loop (token # tokens) =
     (let v = sum_list (map (\<lambda>ch. if ch \<in> set vowels then 1 else 0) token) in
      and_then (truediv v (length token)) (\<lambda>ratio.
        if ratio < 1 / 5 then Inr True else smash_loop tokens))"

definition looks_like_consonant_smash :: "string \<Rightarrow> error + bool" where
  "looks_like_consonant_smash pw = smash_loop (findall match_alpha7 pw)"

text \<open>\<^verbatim>\<open>_looks_like_passphrase\<close>.\<close>

definition looks_like_passphrase :: "string \<Rightarrow> bool" where
  "looks_like_passphrase pw =
     (let tokens = filter (\<lambda>t. 3 \<le> length t) (split_nonalpha pw)
      in 2 \<le> length tokens)"

text \<open>\<^verbatim>\<open>_camel_case_segments\<close>.\<close>

definition camel_case_segments :: "string \<Rightarrow> nat" where
  "camel_case_segments pw = (let segments = findall match_camel pw in length segments)"

text \<open>\<^verbatim>\<open>_has_word_plus_dateish\<close>.\<close>

definition months :: "string list" where
  "months = [''jan'', ''feb'', ''mar'', ''apr'', ''may'', ''jun'',
             ''jul'', ''aug'', ''sep'', ''oct'', ''nov'', ''dec'']"

definition has_word_plus_dateish :: "string \<Rightarrow> error + bool" where
  "has_word_plus_dateish pw =
     (let low = lower pw;
          has_year = search_year low;
          has_month = list_ex (\<lambda>m. sublist m low) months;
          word_tokens = filter (\<lambda>t. 3 \<le> length t) (split_nonalpha pw);
          has_word = (1 \<le> length word_tokens)
      in and_then (longest_linear_sequence pw) (\<lambda>lls.
           let not_trivial_seq = (lls < 4)
           in Inr (has_word \<and> (has_year \<or> has_month) \<and> not_trivial_seq)))"

subsection \<open>The detailed validator\<close>

text \<open>The diagnostic dictionary \<^verbatim>\<open>info\<close> maps keys to integers, booleans, strings
  and one ratio. The source stores the ratio rounded to three decimals
  (\<^verbatim>\<open>round(amb_ratio, 3)\<close>, a float); the model stores the exact ratio, and nothing
  below reads that entry.\<close>

datatype val = VInt int | VBool bool | VStr string | VRat rat

type_synonym info = "string \<rightharpoonup> val"

definition banned_terms :: "string list" where
  "banned_terms = [''password'', ''qwerty'', ''letmein'', ''welcome'', ''iloveyou'',
                   ''dragon'', ''monkey'', ''admin'', ''login'', ''abc123'']"

definition ambiguous_set :: string where
  "ambiguous_set = ''0Oo1lI|5S2Z8B6G9gQq''"

text \<open>\<^verbatim>\<open>_validate_details\<close>. The source's variable \<^verbatim>\<open>length\<close> is \<open>len\<close> here, and
  \<open>pw0\<close> is the argument before \<^verbatim>\<open>pw = pw.strip()\<close>. Each \<^verbatim>\<open>score += ...\<close> and each
  update of \<^verbatim>\<open>info\<close> rebinds the variable.\<close>

definition validate_details :: "string \<Rightarrow> error + (bool \<times> info)" where
  "validate_details pw0 =
     (let pw = strip pw0;
          info = Map.empty;
          len = length pw;
          info = info(''length'' \<mapsto> VInt (int len))
      in
      if len < 8 then Inr (False, info(''reason'' \<mapsto> VStr ''too_short''))
      else
      let has_lower = list_ex islower pw;
          has_upper = list_ex isupper pw;
          has_digit = list_ex isdigit pw;
          has_symbol = list_ex (\<lambda>c. c \<in> set punctuation \<or> isspace c) pw;
          info = info(''has_lower'' \<mapsto> VBool has_lower, ''has_upper'' \<mapsto> VBool has_upper,
                      ''has_digit'' \<mapsto> VBool has_digit, ''has_symbol'' \<mapsto> VBool has_symbol);
          low_pw = lower pw
      in
      if list_ex (\<lambda>trm. sublist trm low_pw) banned_terms
      then Inr (False, info(''reason'' \<mapsto> VStr ''banned_term''))
      else
      let amb_count = sum_list (map (\<lambda>ch. if ch \<in> set ambiguous_set then 1 else 0) pw) in
      and_then (truediv amb_count (max 1 len)) (\<lambda>amb_ratio.
      let info = info(''ambiguous_ratio'' \<mapsto> VRat amb_ratio) in
      if 3 / 5 \<le> amb_ratio then Inr (False, info(''reason'' \<mapsto> VStr ''too_ambiguous''))
      else
      and_then (longest_linear_sequence pw) (\<lambda>seq_len.
      let kb_len = longest_keyboard_walk pw;
          info = info(''longest_linear_sequence'' \<mapsto> VInt (int seq_len),
                      ''longest_keyboard_walk'' \<mapsto> VInt (int kb_len))
      in
      if 5 \<le> max seq_len kb_len then Inr (False, info(''reason'' \<mapsto> VStr ''too_sequential''))
      else
      and_then (max_same_char_run pw) (\<lambda>max_run.
      let repeated_chunk = is_repeated_short_chunk pw;
          info = info(''max_same_char_run'' \<mapsto> VInt (int max_run),
                      ''repeated_short_chunk'' \<mapsto> VBool repeated_chunk)
      in
      and_then (looks_like_consonant_smash pw) (\<lambda>smashy.
      let info = info(''consonant_smash'' \<mapsto> VBool smashy);
          passphrase_like = looks_like_passphrase pw;
          camel_segments = (2 \<le> camel_case_segments pw)
      in
      and_then (has_word_plus_dateish pw) (\<lambda>word_plus_dateish.
      let meaningful_separators = list_ex (\<lambda>sep. sublist [sep] pw) ''-_ .'';
          has_intent_signal = (passphrase_like \<or> camel_segments \<or> word_plus_dateish);
          info = info(''passphrase_like'' \<mapsto> VBool passphrase_like,
                      ''camel_case'' \<mapsto> VBool camel_segments,
                      ''word_plus_dateish'' \<mapsto> VBool word_plus_dateish,
                      ''meaningful_separators'' \<mapsto> VBool meaningful_separators);
          score = (0 :: int);
          score = (if 8 \<le> len \<and> len \<le> 9 then score + 1
                   else if 10 \<le> len \<and> len \<le> 11 then score + 2
                   else if 12 \<le> len \<and> len \<le> 15 then score + 3
                   else score + 4);
          variety_count = sum_list (map of_bool [has_lower, has_upper, has_digit, has_symbol]);
          score = score + min 3 (max 0 (variety_count - 1));
          score = (if passphrase_like then score + 2 else score);
          score = (if camel_segments then score + 2 else score);
          score = (if word_plus_dateish then score + 1 else score);
          score = (if meaningful_separators \<and> (passphrase_like \<or> camel_segments)
                   then score + 1 else score);
          score = (if 4 \<le> seq_len then score - 3 else score);
          score = (if 4 \<le> kb_len then score - 3 else score);
          score = (if repeated_chunk then score - 2 else score);
          score = (if 4 \<le> max_run then score - 2 else score);
          score = (if smashy then score - 2 else score);
          score = (if 3 / 10 \<le> amb_ratio \<and> amb_ratio < 3 / 5 then score - 1 else score);
          info = info(''score'' \<mapsto> VInt score, ''has_intent_signal'' \<mapsto> VBool has_intent_signal)
      in
      if \<not> has_intent_signal then Inr (False, info(''reason'' \<mapsto> VStr ''no_intent_signal''))
      else if 3 \<le> score then Inr (True, info(''reason'' \<mapsto> VStr ''accepted''))
      else Inr (False, info(''reason'' \<mapsto> VStr ''low_score''))))))))"

text \<open>\<^verbatim>\<open>is_valid_password\<close>.\<close>

definition is_valid_password :: "string \<Rightarrow> error + bool" where
  "is_valid_password password = and_then (validate_details password) (\<lambda>(ok, _). Inr ok)"

text \<open>Reading a result: the reason code, the score and the flag of a returned pair.\<close>

definition reason_of :: "error + (bool \<times> info) \<Rightarrow> val option" where
  "reason_of r = (case r of Inl e \<Rightarrow> None | Inr (ok, info) \<Rightarrow> info ''reason'')"

definition score_of :: "error + (bool \<times> info) \<Rightarrow> val option" where
  "score_of r = (case r of Inl e \<Rightarrow> None | Inr (ok, info) \<Rightarrow> info ''score'')"

definition flag_of :: "error + (bool \<times> info) \<Rightarrow> bool option" where
  "flag_of r = (case r of Inl e \<Rightarrow> None | Inr (ok, info) \<Rightarrow> Some ok)"

section \<open>The word-plus-date detector on every string\<close>

text \<open>
  \<^verbatim>\<open>_has_word_plus_dateish\<close> once more, on strings with any code point. Here a string
  is the list of its code points, so \<^verbatim>\<open>ord\<close> is the identity; \<open>codes\<close> turns a
  string of the model above into such a list.

  What the detector reads from the Unicode database of CPython is not part of the
  source. Up to U+00FF it is written out as above; above U+00FF it is a
  parameter, a value of type \<open>unicode\<close> with the tables behind \<^verbatim>\<open>str.isalpha\<close>,
  \<^verbatim>\<open>str.isdecimal\<close>, \<^verbatim>\<open>str.isdigit\<close>, \<^verbatim>\<open>str.isnumeric\<close>, the lower-case mapping
  of one code point (one to three code points), and the test whether a capital
  sigma stands at the end of a word, given what is before and after it.
\<close>

datatype unicode = Unicode
  (u_isalpha: "nat \<Rightarrow> bool")
  (u_isdecimal: "nat \<Rightarrow> bool")
  (u_isdigit: "nat \<Rightarrow> bool")
  (u_isnumeric: "nat \<Rightarrow> bool")
  (u_tolower: "nat \<Rightarrow> nat list")
  (u_final_sigma: "nat list \<Rightarrow> nat list \<Rightarrow> bool")

definition codes :: "string \<Rightarrow> nat list" where
  "codes s = map ord s"

definition between :: "nat \<Rightarrow> nat \<Rightarrow> nat \<Rightarrow> bool" where
  "between lo hi c = (lo \<le> c \<and> c \<le> hi)"

text \<open>\<^verbatim>\<open>c.isalpha()\<close>.\<close>

definition isalpha_u :: "unicode \<Rightarrow> nat \<Rightarrow> bool" where
  "isalpha_u U c =
     (if c < 256
      then between 65 90 c \<or> between 97 122 c \<or> c = 170 \<or> c = 181 \<or> c = 186
           \<or> between 192 214 c \<or> between 216 246 c \<or> between 248 255 c
      else u_isalpha U c)"

text \<open>The lower-case mapping of one code point other than capital sigma.\<close>

definition tolower_u :: "unicode \<Rightarrow> nat \<Rightarrow> nat list" where
  "tolower_u U c =
     (if c < 256
      then (if between 65 90 c \<or> between 192 214 c \<or> between 216 222 c then [c + 32] else [c])
      else u_tolower U c)"

text \<open>\<^verbatim>\<open>s.lower()\<close>: every code point is replaced by its lower-case mapping, except
  capital sigma (U+03A3), which becomes final sigma (U+03C2) at the end of a word
  and small sigma (U+03C3) elsewhere. \<open>seen\<close> is the part of the string already
  read.\<close>

fun lower_scan :: "unicode \<Rightarrow> nat list \<Rightarrow> nat list \<Rightarrow> nat list" where
  "lower_scan U seen [] = []"
| "lower_scan U seen (c # rest) =
     (if c = 931 then [if u_final_sigma U seen rest then 962 else 963] else tolower_u U c)
     @ lower_scan U (seen @ [c]) rest"

definition lower_u :: "unicode \<Rightarrow> nat list \<Rightarrow> nat list" where
  "lower_u U s = lower_scan U [] s"

text \<open>The classes \<^verbatim>\<open>[A-Za-z]\<close>, \<^verbatim>\<open>\d\<close> (\<^verbatim>\<open>str.isdecimal\<close>) and \<^verbatim>\<open>\w\<close>
  (\<^verbatim>\<open>str.isalnum\<close>, that is alphabetic, decimal, digit or numeric; or
  underscore).\<close>

definition re_alpha_u :: "nat \<Rightarrow> bool" where
  "re_alpha_u c = (between 65 90 c \<or> between 97 122 c)"

definition re_digit_u :: "unicode \<Rightarrow> nat \<Rightarrow> bool" where
  "re_digit_u U c = (if c < 256 then between 48 57 c else u_isdecimal U c)"

definition re_word_u :: "unicode \<Rightarrow> nat \<Rightarrow> bool" where
  "re_word_u U c =
     (if c < 256
      then isalpha_u U c \<or> between 48 57 c \<or> between 178 179 c \<or> c = 185
           \<or> between 188 190 c \<or> c = 95
      else u_isalpha U c \<or> u_isdecimal U c \<or> u_isdigit U c \<or> u_isnumeric U c)"

text \<open>\<^verbatim>\<open>re.split(r"[^A-Za-z]+", s)\<close>.\<close>

fun split_scan_u :: "nat list \<Rightarrow> nat list \<Rightarrow> bool \<Rightarrow> nat list list" where
  "split_scan_u [] cur in_sep = [rev cur]"
| "split_scan_u (c # cs) cur in_sep =
     (if re_alpha_u c then split_scan_u cs (c # cur) False
      else if in_sep then split_scan_u cs cur True
      else rev cur # split_scan_u cs [] True)"

definition split_nonalpha_u :: "nat list \<Rightarrow> nat list list" where
  "split_nonalpha_u s = split_scan_u s [] False"

text \<open>\<^verbatim>\<open>re.search(r"\b(19|20)\d{2}\b", s) is not None\<close>.\<close>

definition word_boundary_u :: "unicode \<Rightarrow> nat option \<Rightarrow> nat option \<Rightarrow> bool" where
  "word_boundary_u U a b =
     ((case a of None \<Rightarrow> False | Some c \<Rightarrow> re_word_u U c)
        \<noteq> (case b of None \<Rightarrow> False | Some c \<Rightarrow> re_word_u U c))"

definition year_at_u :: "unicode \<Rightarrow> nat option \<Rightarrow> nat list \<Rightarrow> bool" where
  "year_at_u U prev s = (case s of
       c1 # c2 # c3 # c4 # rest \<Rightarrow>
         word_boundary_u U prev (Some c1)
         \<and> ([c1, c2] = codes ''19'' \<or> [c1, c2] = codes ''20'')
         \<and> re_digit_u U c3 \<and> re_digit_u U c4
         \<and> word_boundary_u U (Some c4) (case rest of [] \<Rightarrow> None | c5 # _ \<Rightarrow> Some c5)
     | _ \<Rightarrow> False)"

fun year_scan_u :: "unicode \<Rightarrow> nat option \<Rightarrow> nat list \<Rightarrow> bool" where
  "year_scan_u U prev [] = False"
| "year_scan_u U prev (c # cs) = (year_at_u U prev (c # cs) \<or> year_scan_u U (Some c) cs)"

definition search_year_u :: "unicode \<Rightarrow> nat list \<Rightarrow> bool" where
  "search_year_u U s = year_scan_u U None s"

text \<open>\<^verbatim>\<open>_longest_linear_sequence\<close>. \<^verbatim>\<open>ch.lower()\<close> may be longer than one code point,
  so \<open>s\<close> may be longer than \<open>pw\<close>.\<close>

definition step_u :: "nat \<Rightarrow> nat \<Rightarrow> int option" where
  "step_u a b = Some (int b - int a)"

definition lls_body_u :: "nat list \<Rightarrow> nat \<Rightarrow> nat \<times> nat \<times> int option \<Rightarrow> error + (nat \<times> nat \<times> int option)" where
  "lls_body_u s i state = (case state of (best, cur, last_step) \<Rightarrow>
     and_then (getitem s (i - 1)) (\<lambda>a.
     and_then (getitem s i) (\<lambda>b.
       let st = step_u a b in
       if st = Some 1 \<or> st = Some (- 1) then
         (let cur = (if last_step = st then cur + 1 else 2)
          in Inr (max best cur, cur, st))
       else Inr (best, 1, None))))"

definition norm_u :: "unicode \<Rightarrow> nat \<Rightarrow> nat list" where
  "norm_u U ch = (if isalpha_u U ch then lower_u U [ch] else [ch])"

definition longest_linear_sequence_u :: "unicode \<Rightarrow> nat list \<Rightarrow> error + nat" where
  "longest_linear_sequence_u U pw =
     (if pw = [] then Inr 0
      else let s = concat (map (norm_u U) pw) in
        and_then (for_loop [1 ..< length s] (lls_body_u s) (1, 1, None))
          (\<lambda>(best, cur, last_step). Inr best))"

text \<open>\<^verbatim>\<open>_has_word_plus_dateish\<close>.\<close>

definition has_word_plus_dateish_u :: "unicode \<Rightarrow> nat list \<Rightarrow> error + bool" where
  "has_word_plus_dateish_u U pw =
     (let low = lower_u U pw;
          has_year = search_year_u U low;
          has_month = list_ex (\<lambda>m. sublist (codes m) low) months;
          word_tokens = filter (\<lambda>t. 3 \<le> length t) (split_nonalpha_u pw);
          has_word = (1 \<le> length word_tokens)
      in and_then (longest_linear_sequence_u U pw) (\<lambda>lls.
           let not_trivial_seq = (lls < 4)
           in Inr (has_word \<and> (has_year \<or> has_month) \<and> not_trivial_seq)))"

text \<open>Tables for the examples: above U+00FF they hold the Arabic-Indic digits U+0660
  to U+0669 and nothing else.\<close>

definition arabic_indic_digits :: unicode where
  "arabic_indic_digits =
     Unicode (\<lambda>c. False) (between 1632 1641) (between 1632 1641) (between 1632 1641)
       (\<lambda>c. [c]) (\<lambda>seen rest. False)"

section \<open>The vocabulary of the specification\<close>

text \<open>The definitions of this section follow the words of the specification; they
  are what the validator is compared with. All of them take the candidate, that is
  the input after trimming.\<close>

text \<open>The values of the detectors that can raise, read off their results.\<close>

definition linear_sequence_length :: "string \<Rightarrow> nat" where
  "linear_sequence_length pw = (case longest_linear_sequence pw of Inr n \<Rightarrow> n | Inl e \<Rightarrow> 0)"

definition same_char_run_length :: "string \<Rightarrow> nat" where
  "same_char_run_length pw = (case max_same_char_run pw of Inr n \<Rightarrow> n | Inl e \<Rightarrow> 0)"

definition consonant_smash :: "string \<Rightarrow> bool" where
  "consonant_smash pw = (looks_like_consonant_smash pw = Inr True)"

definition word_plus_dateish :: "string \<Rightarrow> bool" where
  "word_plus_dateish pw = (has_word_plus_dateish pw = Inr True)"

text \<open>The ambiguous-character ratio: the number of characters of the candidate in
  the ambiguous set, divided by the length.\<close>

definition ambiguous_ratio :: "string \<Rightarrow> rat" where
  "ambiguous_ratio pw =
     of_nat (length (filter (\<lambda>c. c \<in> set ambiguous_set) pw)) / of_nat (length pw)"

text \<open>A banned term is a substring of the candidate, case ignored.\<close>

definition contains_banned_term :: "string \<Rightarrow> bool" where
  "contains_banned_term pw = (\<exists>t \<in> set banned_terms. sublist t (lower pw))"

text \<open>The four conditions of the hard-reject gate with their reason codes, in the
  order of the specification.\<close>

definition hard_reject_conditions :: "(string \<times> (string \<Rightarrow> bool)) list" where
  "hard_reject_conditions =
     [(''too_short'', \<lambda>pw. length pw < 8),
      (''banned_term'', contains_banned_term),
      (''too_ambiguous'', \<lambda>pw. 3 / 5 \<le> ambiguous_ratio pw),
      (''too_sequential'',
         \<lambda>pw. 5 \<le> max (linear_sequence_length pw) (longest_keyboard_walk pw))]"

text \<open>The reason code of the first condition that matches the candidate, if any.\<close>

definition first_hard_reject :: "string \<Rightarrow> string option" where
  "first_hard_reject pw = map_option fst (find (\<lambda>rc. snd rc pw) hard_reject_conditions)"

definition passes_hard_reject_gate :: "string \<Rightarrow> bool" where
  "passes_hard_reject_gate pw = (first_hard_reject pw = None)"

text \<open>The CamelCase flag and the intent signal.\<close>

definition camel_case :: "string \<Rightarrow> bool" where
  "camel_case pw = (2 \<le> camel_case_segments pw)"

definition intent_signal :: "string \<Rightarrow> bool" where
  "intent_signal pw = (looks_like_passphrase pw \<or> camel_case pw \<or> word_plus_dateish pw)"

text \<open>The components of the score.\<close>

definition length_points :: "nat \<Rightarrow> int" where
  "length_points n =
     (if 8 \<le> n \<and> n \<le> 9 then 1
      else if 10 \<le> n \<and> n \<le> 11 then 2
      else if 12 \<le> n \<and> n \<le> 15 then 3
      else if 16 \<le> n then 4
      else 0)"

definition classes_present :: "string \<Rightarrow> nat" where
  "classes_present pw =
     length (filter (\<lambda>present. present)
       [\<exists>c \<in> set pw. islower c, \<exists>c \<in> set pw. isupper c, \<exists>c \<in> set pw. isdigit c,
        \<exists>c \<in> set pw. c \<in> set punctuation \<or> isspace c])"

definition variety_points :: "string \<Rightarrow> int" where
  "variety_points pw = min 3 (max 0 (int (classes_present pw) - 1))"

definition meaningful_separator :: "string \<Rightarrow> bool" where
  "meaningful_separator pw = (\<exists>c \<in> set pw. c \<in> set ''-_ .'')"

definition points :: "bool \<Rightarrow> int \<Rightarrow> int" where
  "points holds k = (if holds then k else 0)"

definition spec_score :: "string \<Rightarrow> int" where
  "spec_score pw =
     length_points (length pw)
     + variety_points pw
     + points (looks_like_passphrase pw) 2
     + points (camel_case pw) 2
     + points (word_plus_dateish pw) 1
     + points (meaningful_separator pw \<and> (looks_like_passphrase pw \<or> camel_case pw)) 1
     + points (4 \<le> linear_sequence_length pw) (- 3)
     + points (4 \<le> longest_keyboard_walk pw) (- 3)
     + points (is_repeated_short_chunk pw) (- 2)
     + points (4 \<le> same_char_run_length pw) (- 2)
     + points (consonant_smash pw) (- 2)
     + points (3 / 10 \<le> ambiguous_ratio pw \<and> ambiguous_ratio pw < 3 / 5) (- 1)"

text \<open>Word plus date, on strings with any code point. A word token is a piece of
  length at least 3 left by splitting the candidate at the runs of characters
  other than the ASCII letters. A month is one of the twelve abbreviations.
  \<open>year_digits_u\<close> says that a string is a year: \<open>19\<close> or \<open>20\<close> and two decimal
  digits, of any script. \<open>contains_year_u\<close> asks for a year anywhere in the string;
  \<open>contains_delimited_year_u\<close> asks in addition that the character before it and
  the character after it, where there is one, is not a word character.\<close>

definition linear_sequence_length_u :: "unicode \<Rightarrow> nat list \<Rightarrow> nat" where
  "linear_sequence_length_u U pw =
     (case longest_linear_sequence_u U pw of Inr n \<Rightarrow> n | Inl e \<Rightarrow> 0)"

definition has_word_token_u :: "nat list \<Rightarrow> bool" where
  "has_word_token_u pw = (\<exists>t \<in> set (split_nonalpha_u pw). 3 \<le> length t)"

definition contains_month_u :: "nat list \<Rightarrow> bool" where
  "contains_month_u s = (\<exists>m \<in> set months. sublist (codes m) s)"

definition year_digits_u :: "unicode \<Rightarrow> nat list \<Rightarrow> bool" where
  "year_digits_u U y =
     (length y = 4 \<and> (take 2 y = codes ''19'' \<or> take 2 y = codes ''20'')
      \<and> re_digit_u U (y ! 2) \<and> re_digit_u U (y ! 3))"

definition contains_year_u :: "unicode \<Rightarrow> nat list \<Rightarrow> bool" where
  "contains_year_u U s = (\<exists>i \<in> set [0 ..< length s]. year_digits_u U (slice s i (i + 4)))"

definition word_char_at_u :: "unicode \<Rightarrow> nat list \<Rightarrow> nat \<Rightarrow> bool" where
  "word_char_at_u U s i = (i < length s \<and> re_word_u U (s ! i))"

definition contains_delimited_year_u :: "unicode \<Rightarrow> nat list \<Rightarrow> bool" where
  "contains_delimited_year_u U s =
     (\<exists>i \<in> set [0 ..< length s].
        year_digits_u U (slice s i (i + 4))
        \<and> (i = 0 \<or> \<not> word_char_at_u U s (i - 1))
        \<and> \<not> word_char_at_u U s (i + 4))"

text \<open>Word plus date as claim C6 words it, and as the detector computes it; the
  year and the month are looked for in the lower-cased candidate.\<close>

definition word_plus_date_any_year_u :: "unicode \<Rightarrow> nat list \<Rightarrow> bool" where
  "word_plus_date_any_year_u U pw =
     (has_word_token_u pw
      \<and> (contains_year_u U (lower_u U pw) \<or> contains_month_u (lower_u U pw))
      \<and> linear_sequence_length_u U pw < 4)"

definition word_plus_date_delimited_year_u :: "unicode \<Rightarrow> nat list \<Rightarrow> bool" where
  "word_plus_date_delimited_year_u U pw =
     (has_word_token_u pw
      \<and> (contains_delimited_year_u U (lower_u U pw) \<or> contains_month_u (lower_u U pw))
      \<and> linear_sequence_length_u U pw < 4)"



text \<open>An entry of the diagnostic dictionary of a result.\<close>

definition info_of :: "error + (bool \<times> info) \<Rightarrow> string \<Rightarrow> val option" where
  "info_of r key = (case r of Inl e \<Rightarrow> None | Inr (ok, info) \<Rightarrow> info key)"

text \<open>The seven reason codes.\<close>

definition reason_codes :: "string list" where
  "reason_codes = [''too_short'', ''banned_term'', ''too_ambiguous'', ''too_sequential'',
                   ''no_intent_signal'', ''low_score'', ''accepted'']"

section \<open>Properties\<close>

subsection \<open>The detectors never raise\<close>

lemma for_loop_total:
  "(\<And>i st. i \<in> set idx \<Longrightarrow> \<exists>st'. body i st = Inr st') \<Longrightarrow> \<exists>st'. for_loop idx body st = Inr st'"
proof (induction idx arbitrary: st)
  case Nil
  then show ?case by simp
next
  case (Cons i idx)
  from Cons.prems[of i st] obtain st1 where b: "body i st = Inr st1" by auto
  from Cons.IH[of st1] Cons.prems obtain st2 where "for_loop idx body st1 = Inr st2" by auto
  with b show ?case by simp
qed

lemma lls_body_total:
  "1 \<le> i \<Longrightarrow> i < length s \<Longrightarrow> \<exists>st'. lls_body s i st = Inr st'"
  by (cases st) (auto simp: lls_body_def and_then_def getitem_def Let_def)

lemma longest_linear_sequence_total: "\<exists>n. longest_linear_sequence pw = Inr n"
proof (cases "pw = []")
  case True
  then show ?thesis by (simp add: longest_linear_sequence_def)
next
  case False
  define s where "s = map (\<lambda>ch. if isalpha ch then lower_char ch else ch) pw"
  have "\<exists>st'. for_loop [1 ..< length s] (lls_body s) (1, 1, None) = Inr st'"
    by (rule for_loop_total, rule lls_body_total) simp_all
  then obtain b c l where "for_loop [1 ..< length s] (lls_body s) (1, 1, None) = Inr (b, c, l)"
    by (metis prod_cases3)
  with False show ?thesis
    by (simp add: longest_linear_sequence_def and_then_def s_def)
qed

lemma mscr_body_total:
  "1 \<le> i \<Longrightarrow> i < length s \<Longrightarrow> \<exists>st'. mscr_body s i st = Inr st'"
  by (cases st) (auto simp: mscr_body_def and_then_def getitem_def Let_def)

lemma max_same_char_run_total: "\<exists>n. max_same_char_run pw = Inr n"
proof -
  have "\<exists>st'. for_loop [1 ..< length pw] (mscr_body pw) (1, 1) = Inr st'"
    by (rule for_loop_total, rule mscr_body_total) simp_all
  then obtain b c where "for_loop [1 ..< length pw] (mscr_body pw) (1, 1) = Inr (b, c)"
    by (metis surj_pair)
  then show ?thesis
    by (simp add: max_same_char_run_def and_then_def)
qed

lemma smash_loop_total:
  "(\<And>t. t \<in> set tokens \<Longrightarrow> t \<noteq> []) \<Longrightarrow> \<exists>b. smash_loop tokens = Inr b"
  by (induction tokens) (auto simp: and_then_def truediv_def Let_def)

lemma findall_scan_alpha7_nonempty:
  "t \<in> set (findall_scan match_alpha7 s k) \<Longrightarrow> 7 \<le> length t"
  by (induction s arbitrary: k) (auto simp: match_alpha7_def Let_def split: if_splits option.splits)

lemma looks_like_consonant_smash_total: "\<exists>b. looks_like_consonant_smash pw = Inr b"
  unfolding looks_like_consonant_smash_def findall_def
  by (rule smash_loop_total) (auto dest: findall_scan_alpha7_nonempty)

lemma has_word_plus_dateish_total: "\<exists>b. has_word_plus_dateish pw = Inr b"
  using longest_linear_sequence_total[of pw]
  by (auto simp: has_word_plus_dateish_def and_then_def Let_def)

subsection \<open>The validator, stage by stage\<close>

lemma sum_list_indicator: "sum_list (map (\<lambda>ch. if P ch then 1 else 0) xs) = length (filter P xs)"
  by (induction xs) auto

lemma linear_sequence_length_eq: "longest_linear_sequence pw = Inr (linear_sequence_length pw)"
  using longest_linear_sequence_total[of pw] by (auto simp: linear_sequence_length_def)

lemma same_char_run_length_eq: "max_same_char_run pw = Inr (same_char_run_length pw)"
  using max_same_char_run_total[of pw] by (auto simp: same_char_run_length_def)

lemma consonant_smash_eq: "looks_like_consonant_smash pw = Inr (consonant_smash pw)"
  using looks_like_consonant_smash_total[of pw] by (auto simp: consonant_smash_def)

lemma word_plus_dateish_eq: "has_word_plus_dateish pw = Inr (word_plus_dateish pw)"
  using has_word_plus_dateish_total[of pw] by (auto simp: word_plus_dateish_def)

lemma truediv_ratio:
  "8 \<le> length pw \<Longrightarrow>
   truediv (sum_list (map (\<lambda>ch. if ch \<in> set ambiguous_set then 1 else 0) pw)) (max 1 (length pw))
     = Inr (ambiguous_ratio pw)"
  by (auto simp: truediv_def ambiguous_ratio_def sum_list_indicator max_def)

lemma truediv_ratio':
  "8 \<le> length pw \<Longrightarrow>
   truediv (sum_list (map (\<lambda>ch. if ch \<in> set ambiguous_set then 1 else 0) pw)) (length pw)
     = Inr (ambiguous_ratio pw)"
  by (auto simp: truediv_def ambiguous_ratio_def sum_list_indicator)

lemmas detector_values = linear_sequence_length_eq same_char_run_length_eq consonant_smash_eq
  word_plus_dateish_eq

lemma banned_list_ex: "list_ex (\<lambda>trm. sublist trm (lower pw)) banned_terms = contains_banned_term pw"
  by (simp add: contains_banned_term_def list_ex_iff)

lemma gate_too_short:
  "length (strip pw) < 8 \<Longrightarrow>
   flag_of (validate_details pw) = Some False
   \<and> reason_of (validate_details pw) = Some (VStr ''too_short'')
   \<and> score_of (validate_details pw) = None"
  by (simp add: validate_details_def Let_def flag_of_def reason_of_def score_of_def)

lemma gate_banned:
  "\<not> length (strip pw) < 8 \<Longrightarrow> contains_banned_term (strip pw) \<Longrightarrow>
   flag_of (validate_details pw) = Some False
   \<and> reason_of (validate_details pw) = Some (VStr ''banned_term'')
   \<and> score_of (validate_details pw) = None"
  by (simp add: validate_details_def Let_def flag_of_def reason_of_def score_of_def banned_list_ex)

lemma gate_ambiguous:
  "\<not> length (strip pw) < 8 \<Longrightarrow> \<not> contains_banned_term (strip pw) \<Longrightarrow>
   3 / 5 \<le> ambiguous_ratio (strip pw) \<Longrightarrow>
   flag_of (validate_details pw) = Some False
   \<and> reason_of (validate_details pw) = Some (VStr ''too_ambiguous'')
   \<and> score_of (validate_details pw) = None"
  by (simp add: validate_details_def Let_def flag_of_def reason_of_def score_of_def banned_list_ex
      truediv_ratio truediv_ratio' and_then_def)

lemma gate_sequential:
  "\<not> length (strip pw) < 8 \<Longrightarrow> \<not> contains_banned_term (strip pw) \<Longrightarrow>
   \<not> 3 / 5 \<le> ambiguous_ratio (strip pw) \<Longrightarrow>
   5 \<le> max (linear_sequence_length (strip pw)) (longest_keyboard_walk (strip pw)) \<Longrightarrow>
   flag_of (validate_details pw) = Some False
   \<and> reason_of (validate_details pw) = Some (VStr ''too_sequential'')
   \<and> score_of (validate_details pw) = None"
  by (simp add: validate_details_def Let_def flag_of_def reason_of_def score_of_def banned_list_ex
      truediv_ratio truediv_ratio' and_then_def detector_values)

lemma sublist_single: "sublist [c] xs = (c \<in> set xs)"
  by (induction xs) (auto simp: sublist_Cons_right)

lemma separators_eq: "list_ex (\<lambda>sep. sublist [sep] pw) ''-_ .'' = meaningful_separator pw"
  by (auto simp: meaningful_separator_def sublist_single)

lemma variety_eq:
  "min 3 (max 0 (sum_list (map of_bool [list_ex islower pw, list_ex isupper pw, list_ex isdigit pw,
       list_ex (\<lambda>c. c \<in> set punctuation \<or> isspace c) pw]) - 1)) = variety_points pw"
  by (simp add: variety_points_def classes_present_def list_ex_iff)

lemma add_points: "(if c then s + k else s) = s + points c k"
  by (simp add: points_def)

lemma sub_points: "(if c then s - k else s) = s + points c (- k)"
  by (simp add: points_def)

lemma length_points_code:
  "8 \<le> n \<Longrightarrow>
   (if 8 \<le> n \<and> n \<le> 9 then (0::int) + 1 else if 10 \<le> n \<and> n \<le> 11 then 0 + 2
    else if 12 \<le> n \<and> n \<le> 15 then 0 + 3 else 0 + 4) = length_points n"
  by (simp add: length_points_def)

lemma gate_passed_result:
  assumes "c = strip pw" "\<not> length c < 8" "\<not> contains_banned_term c"
    "\<not> 3 / 5 \<le> ambiguous_ratio c"
    "\<not> 5 \<le> max (linear_sequence_length c) (longest_keyboard_walk c)"
  shows "validate_details pw =
     (let info = [''length'' \<mapsto> VInt (int (length c)),
                 ''has_lower'' \<mapsto> VBool (list_ex islower c), ''has_upper'' \<mapsto> VBool (list_ex isupper c),
                 ''has_digit'' \<mapsto> VBool (list_ex isdigit c),
                 ''has_symbol'' \<mapsto> VBool (list_ex (\<lambda>c. c \<in> set punctuation \<or> isspace c) c),
                 ''ambiguous_ratio'' \<mapsto> VRat (ambiguous_ratio c),
                 ''longest_linear_sequence'' \<mapsto> VInt (int (linear_sequence_length c)),
                 ''longest_keyboard_walk'' \<mapsto> VInt (int (longest_keyboard_walk c)),
                 ''max_same_char_run'' \<mapsto> VInt (int (same_char_run_length c)),
                 ''repeated_short_chunk'' \<mapsto> VBool (is_repeated_short_chunk c),
                 ''consonant_smash'' \<mapsto> VBool (consonant_smash c),
                 ''passphrase_like'' \<mapsto> VBool (looks_like_passphrase c),
                 ''camel_case'' \<mapsto> VBool (camel_case c),
                 ''word_plus_dateish'' \<mapsto> VBool (word_plus_dateish c),
                 ''meaningful_separators'' \<mapsto> VBool (meaningful_separator c),
                 ''score'' \<mapsto> VInt (spec_score c),
                 ''has_intent_signal'' \<mapsto> VBool (intent_signal c)]
      in if \<not> intent_signal c then Inr (False, info(''reason'' \<mapsto> VStr ''no_intent_signal''))
         else if 3 \<le> spec_score c then Inr (True, info(''reason'' \<mapsto> VStr ''accepted''))
         else Inr (False, info(''reason'' \<mapsto> VStr ''low_score'')))"
proof -
  have len: "8 \<le> length c" using assms(2) by simp
  have lp: "(if 8 \<le> length c \<and> length c \<le> 9 then (0::int) + 1
             else if 10 \<le> length c \<and> length c \<le> 11 then 0 + 2
             else if 12 \<le> length c \<and> length c \<le> 15 then 0 + 3 else 0 + 4) = length_points (length c)"
    using len by (rule length_points_code)
  show ?thesis
    unfolding validate_details_def assms(1)[symmetric]
    apply (simp only: Let_def add_points sub_points)
    apply (simp only: lp separators_eq variety_eq banned_list_ex detector_values)
    using assms(2-5)
    apply (simp only: if_False truediv_ratio[OF len] and_then_def sum.case)
    apply (simp only: spec_score_def camel_case_def intent_signal_def)
    done
qed

lemma gate_passed:
  assumes "\<not> length (strip pw) < 8" "\<not> contains_banned_term (strip pw)"
    "\<not> 3 / 5 \<le> ambiguous_ratio (strip pw)"
    "\<not> 5 \<le> max (linear_sequence_length (strip pw)) (longest_keyboard_walk (strip pw))"
  shows "score_of (validate_details pw) = Some (VInt (spec_score (strip pw)))"
    and "flag_of (validate_details pw) = Some (intent_signal (strip pw) \<and> 3 \<le> spec_score (strip pw))"
    and "reason_of (validate_details pw) = Some (VStr
           (if \<not> intent_signal (strip pw) then ''no_intent_signal''
            else if 3 \<le> spec_score (strip pw) then ''accepted'' else ''low_score''))"
    and "info_of (validate_details pw) ''camel_case'' = Some (VBool (camel_case (strip pw)))"
    and "info_of (validate_details pw) ''has_intent_signal'' = Some (VBool (intent_signal (strip pw)))"
proof -
  note vd = gate_passed_result[OF refl assms]
  show "score_of (validate_details pw) = Some (VInt (spec_score (strip pw)))"
    unfolding vd by (simp add: score_of_def Let_def)
  show "flag_of (validate_details pw) = Some (intent_signal (strip pw) \<and> 3 \<le> spec_score (strip pw))"
    unfolding vd by (simp add: flag_of_def Let_def)
  show "reason_of (validate_details pw) = Some (VStr
           (if \<not> intent_signal (strip pw) then ''no_intent_signal''
            else if 3 \<le> spec_score (strip pw) then ''accepted'' else ''low_score''))"
    unfolding vd by (simp add: reason_of_def Let_def)
  show "info_of (validate_details pw) ''camel_case'' = Some (VBool (camel_case (strip pw)))"
    unfolding vd by (simp add: info_of_def Let_def)
  show "info_of (validate_details pw) ''has_intent_signal'' = Some (VBool (intent_signal (strip pw)))"
    unfolding vd by (simp add: info_of_def Let_def)
qed

lemma passes_gate_iff:
  "passes_hard_reject_gate c =
     (\<not> length c < 8 \<and> \<not> contains_banned_term c \<and> \<not> 3 / 5 \<le> ambiguous_ratio c
      \<and> \<not> 5 \<le> max (linear_sequence_length c) (longest_keyboard_walk c))"
  unfolding passes_hard_reject_gate_def first_hard_reject_def hard_reject_conditions_def
  by (simp del: max_less_iff_conj)

lemma first_hard_reject_cases:
  "first_hard_reject c =
     (if length c < 8 then Some ''too_short''
      else if contains_banned_term c then Some ''banned_term''
      else if 3 / 5 \<le> ambiguous_ratio c then Some ''too_ambiguous''
      else if 5 \<le> max (linear_sequence_length c) (longest_keyboard_walk c) then Some ''too_sequential''
      else None)"
  unfolding first_hard_reject_def hard_reject_conditions_def
  by (simp del: max_less_iff_conj)

lemma validate_details_result:
  "flag_of (validate_details pw)
     = Some (first_hard_reject (strip pw) = None \<and> intent_signal (strip pw) \<and> 3 \<le> spec_score (strip pw))
   \<and> reason_of (validate_details pw)
     = Some (VStr (case first_hard_reject (strip pw) of
                     Some r \<Rightarrow> r
                   | None \<Rightarrow> if \<not> intent_signal (strip pw) then ''no_intent_signal''
                             else if 3 \<le> spec_score (strip pw) then ''accepted'' else ''low_score''))"
proof (cases "first_hard_reject (strip pw)")
  case None
  then have "passes_hard_reject_gate (strip pw)"
    by (simp add: passes_hard_reject_gate_def)
  then have g: "\<not> length (strip pw) < 8" "\<not> contains_banned_term (strip pw)"
    "\<not> 3 / 5 \<le> ambiguous_ratio (strip pw)"
    "\<not> 5 \<le> max (linear_sequence_length (strip pw)) (longest_keyboard_walk (strip pw))"
    unfolding passes_gate_iff by blast+
  show ?thesis
    using gate_passed(2,3)[OF g] None by simp
next
  case (Some r)
  then show ?thesis
    using gate_too_short[of pw] gate_banned[of pw] gate_ambiguous[of pw] gate_sequential[of pw]
    unfolding first_hard_reject_cases
    by (auto split: if_splits)
qed

lemma first_hard_reject_codes:
  "first_hard_reject c = Some r \<Longrightarrow> r \<in> set reason_codes \<and> r \<noteq> ''accepted''"
  unfolding first_hard_reject_cases reason_codes_def
  by (auto split: if_splits)

lemma result_is_pair:
  "flag_of r = Some b \<Longrightarrow> reason_of r = Some v \<Longrightarrow> \<exists>info. r = Inr (b, info) \<and> info ''reason'' = Some v"
  by (cases r) (auto simp: flag_of_def reason_of_def)

lemma validate_details_returns:
  "\<exists>ok info r. validate_details pw = Inr (ok, info) \<and> info ''reason'' = Some (VStr r)
      \<and> r \<in> set reason_codes \<and> (ok \<longleftrightarrow> r = ''accepted'')"
proof -
  let ?b = "first_hard_reject (strip pw) = None \<and> intent_signal (strip pw) \<and> 3 \<le> spec_score (strip pw)"
  let ?r = "case first_hard_reject (strip pw) of
                     Some r \<Rightarrow> r
                   | None \<Rightarrow> if \<not> intent_signal (strip pw) then ''no_intent_signal''
                             else if 3 \<le> spec_score (strip pw) then ''accepted'' else ''low_score''"
  from validate_details_result[of pw]
  obtain info where i: "validate_details pw = Inr (?b, info)" "info ''reason'' = Some (VStr ?r)"
    using result_is_pair by blast
  have "?r \<in> set reason_codes \<and> (?b \<longleftrightarrow> ?r = ''accepted'')"
  proof (cases "first_hard_reject (strip pw)")
    case None
    then show ?thesis by (simp add: reason_codes_def)
  next
    case (Some r)
    with first_hard_reject_codes[OF Some] show ?thesis by simp
  qed
  with i show ?thesis by blast
qed

subsection \<open>The hard-reject gate\<close>

text \<open>
  Claim C2: the hard-reject gate tests \<open>too_short\<close> (length below 8), \<open>banned_term\<close>,
  \<open>too_ambiguous\<close> (ambiguous ratio at least 0.60) and \<open>too_sequential\<close> (the
  larger of the longest linear sequence and the longest keyboard walk at least 5)
  in this order, and a candidate that matches one or more of them is rejected with
  the reason code of the first that matches.
\<close>

theorem hard_reject_first_match:
  assumes "first_hard_reject (strip pw) = Some r"
  shows "flag_of (validate_details pw) = Some False
         \<and> reason_of (validate_details pw) = Some (VStr r)"
  using assms gate_too_short[of pw] gate_banned[of pw] gate_ambiguous[of pw] gate_sequential[of pw]
  unfolding first_hard_reject_cases
  by (auto split: if_splits)

theorem hard_reject_first_match_witness:
  "first_hard_reject (strip ''0O0O0O0Oqwerty'') = Some ''banned_term''
   \<and> 3 / 5 \<le> ambiguous_ratio (strip ''0O0O0O0Oqwerty'')
   \<and> 5 \<le> max (linear_sequence_length (strip ''0O0O0O0Oqwerty'')) (longest_keyboard_walk (strip ''0O0O0O0Oqwerty''))
   \<and> flag_of (validate_details ''0O0O0O0Oqwerty'') = Some False
   \<and> reason_of (validate_details ''0O0O0O0Oqwerty'') = Some (VStr ''banned_term'')"
proof -
  have h: "first_hard_reject (strip ''0O0O0O0Oqwerty'') = Some ''banned_term''"
    unfolding first_hard_reject_cases by code_simp
  have a: "3 / 5 \<le> ambiguous_ratio (strip ''0O0O0O0Oqwerty'')"
    by code_simp
  have s: "5 \<le> max (linear_sequence_length (strip ''0O0O0O0Oqwerty'')) (longest_keyboard_walk (strip ''0O0O0O0Oqwerty''))"
    by code_simp
  show ?thesis
    using hard_reject_first_match[OF h] h a s by simp
qed

subsection \<open>Banned terms\<close>

lemma lower_char_space: "isspace c \<Longrightarrow> lower_char c = c"
  by (auto simp: lower_char_def isspace_def isupper_def in_range_def)

lemma banned_terms_shape: "\<forall>t \<in> set banned_terms. t \<noteq> [] \<and> (\<forall>c \<in> set t. \<not> isspace c)"
  by code_simp

lemma banned_terms_no_space: "t \<in> set banned_terms \<Longrightarrow> c \<in> set t \<Longrightarrow> \<not> isspace c"
  using banned_terms_shape by blast

lemma banned_terms_nonempty: "t \<in> set banned_terms \<Longrightarrow> t \<noteq> []"
  using banned_terms_shape by blast

lemma sublist_skip_front:
  "t \<noteq> [] \<Longrightarrow> \<forall>x \<in> set a. x \<notin> set t \<Longrightarrow> sublist t (a @ ys) \<Longrightarrow> sublist t ys"
proof (induction a)
  case Nil
  then show ?case by simp
next
  case (Cons x a)
  from Cons.prems(1,2) have "\<not> prefix t (x # a @ ys)"
    by (cases t) auto
  with Cons.prems(3) have "sublist t (a @ ys)"
    by (simp add: sublist_Cons_right)
  with Cons show ?case by simp
qed

lemma sublist_skip_back:
  assumes "t \<noteq> []" "\<forall>x \<in> set b. x \<notin> set t" "sublist t (ys @ b)"
  shows "sublist t ys"
proof -
  from assms(3) have "sublist (rev t) (rev (ys @ b))"
    by (simp only: sublist_rev)
  then have 1: "sublist (rev t) (rev b @ rev ys)"
    by (simp only: rev_append)
  have 2: "rev t \<noteq> []" using assms(1) by simp
  have 3: "\<forall>x \<in> set (rev b). x \<notin> set (rev t)" using assms(2) by simp
  from 2 3 1 have "sublist (rev t) (rev ys)"
    by (rule sublist_skip_front)
  then show ?thesis
    by (simp only: sublist_rev)
qed

lemma strip_decomposition:
  "\<exists>a b. s = a @ strip s @ b \<and> (\<forall>x \<in> set a. isspace x) \<and> (\<forall>x \<in> set b. isspace x)"
proof -
  define d where "d = dropWhile isspace s"
  have 1: "s = takeWhile isspace s @ d" by (simp add: d_def)
  have "rev (rev d) = rev (takeWhile isspace (rev d) @ dropWhile isspace (rev d))"
    by (simp only: takeWhile_dropWhile_id)
  then have "d = rev (dropWhile isspace (rev d)) @ rev (takeWhile isspace (rev d))"
    by (simp only: rev_rev_ident rev_append)
  then have 2: "d = strip s @ rev (takeWhile isspace (rev d))"
    by (simp only: strip_def d_def)
  have "\<forall>x \<in> set (takeWhile isspace s). isspace x"
    by (auto dest: set_takeWhileD)
  moreover have "\<forall>x \<in> set (rev (takeWhile isspace (rev d))). isspace x"
    by (auto dest: set_takeWhileD)
  ultimately show ?thesis using 1 2 by metis
qed

lemma banned_term_survives_strip:
  assumes "t \<in> set banned_terms" "sublist t (lower pw)"
  shows "sublist t (lower (strip pw))"
proof -
  from strip_decomposition[of pw] obtain a b where
    d: "pw = a @ strip pw @ b" "\<forall>x \<in> set a. isspace x" "\<forall>x \<in> set b. isspace x"
    by blast
  have ne: "t \<noteq> []" using assms(1) by (rule banned_terms_nonempty)
  have a: "\<forall>x \<in> set (lower a). x \<notin> set t"
    using d(2) banned_terms_no_space[OF assms(1)] by (auto simp: lower_def lower_char_space)
  have b: "\<forall>x \<in> set (lower b). x \<notin> set t"
    using d(3) banned_terms_no_space[OF assms(1)] by (auto simp: lower_def lower_char_space)
  have "lower pw = lower a @ (lower (strip pw) @ lower b)"
    by (subst d(1)) (simp add: lower_def)
  with assms(2) have "sublist t (lower a @ (lower (strip pw) @ lower b))" by simp
  then have "sublist t (lower (strip pw) @ lower b)"
    by (rule sublist_skip_front[OF ne a])
  then show ?thesis
    by (rule sublist_skip_back[OF ne b])
qed

text \<open>
  Claim C1 says that every input string that contains one of the ten banned terms,
  case ignored, is rejected with the reason code \<open>banned_term\<close>, whatever its
  length. The length test comes first: \<open>admin\<close> is a banned term and is itself an
  input of length 5, and its reason code is not \<open>banned_term\<close> (it is
  \<open>too_short\<close>).
\<close>

theorem banned_term_short_candidate:
  "''admin'' \<in> set banned_terms \<and> sublist ''admin'' (lower ''admin'')
   \<and> reason_of (validate_details ''admin'') \<noteq> Some (VStr ''banned_term'')"
  by code_simp

text \<open>
  Claim C1, amended: every input string whose trimmed length is at least 8 and that
  contains one of the ten banned terms, case ignored, is rejected with the reason
  code \<open>banned_term\<close>, whatever its other structure.
\<close>

theorem banned_term_rejected:
  assumes "8 \<le> length (strip pw)" "t \<in> set banned_terms" "sublist t (lower pw)"
  shows "flag_of (validate_details pw) = Some False
         \<and> reason_of (validate_details pw) = Some (VStr ''banned_term'')"
proof -
  from assms(2,3) have "sublist t (lower (strip pw))"
    by (rule banned_term_survives_strip)
  with assms(2) have "contains_banned_term (strip pw)"
    by (auto simp: contains_banned_term_def)
  with assms(1) gate_banned[of pw] show ?thesis by simp
qed

theorem banned_term_rejected_witness:
  "8 \<le> length (strip '' MyPassWord1 '') \<and> ''password'' \<in> set banned_terms
   \<and> sublist ''password'' (lower '' MyPassWord1 '')
   \<and> flag_of (validate_details '' MyPassWord1 '') = Some False
   \<and> reason_of (validate_details '' MyPassWord1 '') = Some (VStr ''banned_term'')"
proof -
  have l: "8 \<le> length (strip '' MyPassWord1 '')"
    by code_simp
  have t: "''password'' \<in> set banned_terms"
    by code_simp
  have s: "sublist ''password'' (lower '' MyPassWord1 '')"
    by code_simp
  show ?thesis
    using banned_term_rejected[OF l t s] l t s by simp
qed

subsection \<open>The decision gate\<close>

text \<open>
  Claim C3: for every candidate that passes the hard-reject gate, if none of
  passphrase-like, CamelCase and word-plus-dateish holds, the candidate is rejected
  with the reason code \<open>no_intent_signal\<close>, whatever its score; otherwise it is
  accepted, with the reason code \<open>accepted\<close>, if and only if its score is at least
  3, and rejected with the reason code \<open>low_score\<close> when the score is below 3.
\<close>

theorem decision_gate:
  assumes "passes_hard_reject_gate (strip pw)"
  shows "\<exists>score. score_of (validate_details pw) = Some (VInt score)
           \<and> (if \<not> intent_signal (strip pw)
               then flag_of (validate_details pw) = Some False
                    \<and> reason_of (validate_details pw) = Some (VStr ''no_intent_signal'')
               else if 3 \<le> score
               then flag_of (validate_details pw) = Some True
                    \<and> reason_of (validate_details pw) = Some (VStr ''accepted'')
               else flag_of (validate_details pw) = Some False
                    \<and> reason_of (validate_details pw) = Some (VStr ''low_score''))"
proof -
  from assms[unfolded passes_gate_iff] have g: "\<not> length (strip pw) < 8" "\<not> contains_banned_term (strip pw)"
    "\<not> 3 / 5 \<le> ambiguous_ratio (strip pw)"
    "\<not> 5 \<le> max (linear_sequence_length (strip pw)) (longest_keyboard_walk (strip pw))"
    by blast+
  show ?thesis
    using gate_passed[OF g] by (intro exI[of _ "spec_score (strip pw)"]) simp
qed

theorem decision_gate_witness:
  "passes_hard_reject_gate (strip ''BlueParrot!42'')
   \<and> intent_signal (strip ''BlueParrot!42'')
   \<and> score_of (validate_details ''BlueParrot!42'') = Some (VInt 7)
   \<and> flag_of (validate_details ''BlueParrot!42'') = Some True
   \<and> reason_of (validate_details ''BlueParrot!42'') = Some (VStr ''accepted'')
   \<and> passes_hard_reject_gate (strip ''aaaa-Tree'')
   \<and> intent_signal (strip ''aaaa-Tree'')
   \<and> score_of (validate_details ''aaaa-Tree'') = Some (VInt 2)
   \<and> flag_of (validate_details ''aaaa-Tree'') = Some False
   \<and> reason_of (validate_details ''aaaa-Tree'') = Some (VStr ''low_score'')
   \<and> passes_hard_reject_gate (strip ''xjkdf&$2L'')
   \<and> \<not> intent_signal (strip ''xjkdf&$2L'')
   \<and> score_of (validate_details ''xjkdf&$2L'') = Some (VInt 4)
   \<and> flag_of (validate_details ''xjkdf&$2L'') = Some False
   \<and> reason_of (validate_details ''xjkdf&$2L'') = Some (VStr ''no_intent_signal'')"
proof -
  have h1: "passes_hard_reject_gate (strip ''BlueParrot!42'')"
    unfolding passes_gate_iff by code_simp
  have i1: "intent_signal (strip ''BlueParrot!42'')"
    by code_simp
  have s1: "score_of (validate_details ''BlueParrot!42'') = Some (VInt 7)"
    by code_simp
  have h2: "passes_hard_reject_gate (strip ''aaaa-Tree'')"
    unfolding passes_gate_iff by code_simp
  have i2: "intent_signal (strip ''aaaa-Tree'')"
    by code_simp
  have s2: "score_of (validate_details ''aaaa-Tree'') = Some (VInt 2)"
    by code_simp
  have h3: "passes_hard_reject_gate (strip ''xjkdf&$2L'')"
    unfolding passes_gate_iff by code_simp
  have i3: "\<not> intent_signal (strip ''xjkdf&$2L'')"
    by code_simp
  have s3: "score_of (validate_details ''xjkdf&$2L'') = Some (VInt 4)"
    by code_simp
  have r1: "flag_of (validate_details ''BlueParrot!42'') = Some True
            \<and> reason_of (validate_details ''BlueParrot!42'') = Some (VStr ''accepted'')"
    using decision_gate[OF h1] i1 s1 by simp
  have r2: "flag_of (validate_details ''aaaa-Tree'') = Some False
            \<and> reason_of (validate_details ''aaaa-Tree'') = Some (VStr ''low_score'')"
    using decision_gate[OF h2] i2 s2 by simp
  have r3: "flag_of (validate_details ''xjkdf&$2L'') = Some False
            \<and> reason_of (validate_details ''xjkdf&$2L'') = Some (VStr ''no_intent_signal'')"
    using decision_gate[OF h3] i3 s3 by simp
  show ?thesis
    using h1 i1 s1 r1 h2 i2 s2 r2 h3 i3 s3 r3 by simp
qed

subsection \<open>The score\<close>

text \<open>
  Claim C4: for every candidate that passes the hard-reject gate, the score is the
  sum of the length points, the variety points, +2 for passphrase-like, +2 for
  CamelCase, +1 for word-plus-dateish, +1 for a meaningful separator together with
  passphrase-like or CamelCase, -3 for a linear sequence of length at least 4, -3
  for a keyboard walk of length at least 4, -2 for a repeated short chunk, -2 for a
  same-character run of length at least 4, -2 for consonant smash, and -1 for an
  ambiguous ratio in [0.30, 0.60).
\<close>

theorem score_is_sum_of_components:
  assumes "passes_hard_reject_gate (strip pw)"
  shows "score_of (validate_details pw) = Some (VInt (spec_score (strip pw)))"
proof -
  from assms[unfolded passes_gate_iff] have g: "\<not> length (strip pw) < 8" "\<not> contains_banned_term (strip pw)"
    "\<not> 3 / 5 \<le> ambiguous_ratio (strip pw)"
    "\<not> 5 \<le> max (linear_sequence_length (strip pw)) (longest_keyboard_walk (strip pw))"
    by blast+
  show ?thesis
    by (rule gate_passed(1)[OF g])
qed

theorem score_is_sum_of_components_witness:
  "passes_hard_reject_gate (strip ''Blue-Sky.2024'')
   \<and> spec_score (strip ''Blue-Sky.2024'') = 11
   \<and> score_of (validate_details ''Blue-Sky.2024'') = Some (VInt 11)"
proof -
  have h: "passes_hard_reject_gate (strip ''Blue-Sky.2024'')"
    unfolding passes_gate_iff by code_simp
  have s: "spec_score (strip ''Blue-Sky.2024'') = 11"
    by code_simp
  show ?thesis
    using score_is_sum_of_components[OF h] h s by simp
qed

subsection \<open>Word plus date\<close>

text \<open>The detector on every string returns a value, and what it returns.\<close>

lemma lls_body_u_total:
  "1 \<le> i \<Longrightarrow> i < length s \<Longrightarrow> \<exists>st'. lls_body_u s i st = Inr st'"
  by (cases st) (auto simp: lls_body_u_def and_then_def getitem_def Let_def)

lemma longest_linear_sequence_u_total: "\<exists>n. longest_linear_sequence_u U pw = Inr n"
proof (cases "pw = []")
  case True
  then show ?thesis by (simp add: longest_linear_sequence_u_def)
next
  case False
  define s where "s = concat (map (norm_u U) pw)"
  have "\<exists>st'. for_loop [1 ..< length s] (lls_body_u s) (1, 1, None) = Inr st'"
    by (rule for_loop_total, rule lls_body_u_total) simp_all
  then obtain b c l where "for_loop [1 ..< length s] (lls_body_u s) (1, 1, None) = Inr (b, c, l)"
    by (metis prod_cases3)
  with False show ?thesis
    by (simp add: longest_linear_sequence_u_def and_then_def s_def)
qed

lemma linear_sequence_length_u_eq:
  "longest_linear_sequence_u U pw = Inr (linear_sequence_length_u U pw)"
  using longest_linear_sequence_u_total[of U pw] by (auto simp: linear_sequence_length_u_def)

lemma re_digit_word_u: "re_digit_u U c \<Longrightarrow> re_word_u U c"
  by (auto simp: re_digit_u_def re_word_u_def split: if_splits)

lemma year_start_word_u: "[c1, c2] = codes ''19'' \<or> [c1, c2] = codes ''20'' \<Longrightarrow> re_word_u U c1"
  by (auto simp: codes_def ord_def re_word_u_def between_def)

lemma year_at_u_iff:
  "year_at_u U prev t =
     (year_digits_u U (take 4 t)
      \<and> \<not> (case prev of None \<Rightarrow> False | Some c \<Rightarrow> re_word_u U c)
      \<and> \<not> word_char_at_u U t 4)"
proof -
  consider "length t < 4" | c1 c2 c3 c4 where "t = [c1, c2, c3, c4]"
    | c1 c2 c3 c4 c5 rest where "t = c1 # c2 # c3 # c4 # c5 # rest"
  proof (cases t)
    case Nil
    then show ?thesis using that(1) by simp
  next
    case t1: (Cons c1 t1)
    show ?thesis
    proof (cases t1)
      case Nil
      with t1 show ?thesis using that(1) by simp
    next
      case t2: (Cons c2 t2)
      show ?thesis
      proof (cases t2)
        case Nil
        with t1 t2 show ?thesis using that(1) by simp
      next
        case t3: (Cons c3 t3)
        show ?thesis
        proof (cases t3)
          case Nil
          with t1 t2 t3 show ?thesis using that(1) by simp
        next
          case t4: (Cons c4 t4)
          show ?thesis
          proof (cases t4)
            case Nil
            with t1 t2 t3 t4 show ?thesis using that(2) by simp
          next
            case (Cons c5 rest)
            with t1 t2 t3 t4 show ?thesis using that(3) by simp
          qed
        qed
      qed
    qed
  qed
  then show ?thesis
  proof cases
    case 1
    then have "year_at_u U prev t = False"
      by (auto simp: year_at_u_def split: list.splits)
    moreover from 1 have "\<not> year_digits_u U (take 4 t)"
      by (simp add: year_digits_u_def)
    ultimately show ?thesis by simp
  next
    case 2
    show ?thesis
    proof (cases "([c1, c2] = codes ''19'' \<or> [c1, c2] = codes ''20'') \<and> re_digit_u U c3 \<and> re_digit_u U c4")
      case True
      then have "re_word_u U c1" "re_word_u U c4"
        using year_start_word_u[of c1 c2 U] re_digit_word_u[of U c4] by blast+
      with 2 True show ?thesis
        by (simp add: year_at_u_def year_digits_u_def word_boundary_u_def word_char_at_u_def
            split: option.splits)
    next
      case False
      with 2 show ?thesis
        by (auto simp: year_at_u_def year_digits_u_def)
    qed
  next
    case 3
    show ?thesis
    proof (cases "([c1, c2] = codes ''19'' \<or> [c1, c2] = codes ''20'') \<and> re_digit_u U c3 \<and> re_digit_u U c4")
      case True
      then have "re_word_u U c1" "re_word_u U c4"
        using year_start_word_u[of c1 c2 U] re_digit_word_u[of U c4] by blast+
      with 3 True show ?thesis
        by (simp add: year_at_u_def year_digits_u_def word_boundary_u_def word_char_at_u_def
            split: option.splits)
    next
      case False
      with 3 show ?thesis
        by (auto simp: year_at_u_def year_digits_u_def)
    qed
  qed
qed

lemma year_scan_u_iff:
  "year_scan_u U prev s =
     (\<exists>i < length s. year_at_u U (if i = 0 then prev else Some (s ! (i - 1))) (drop i s))"
proof (induction s arbitrary: prev)
  case Nil
  then show ?case by simp
next
  case (Cons c cs)
  have "(\<exists>i < length (c # cs).
           year_at_u U (if i = 0 then prev else Some ((c # cs) ! (i - 1))) (drop i (c # cs)))
      = (year_at_u U prev (c # cs)
         \<or> (\<exists>j < length cs. year_at_u U (Some ((c # cs) ! j)) (drop j cs)))"
    by (simp add: Ex_less_Suc2)
  also have "(\<exists>j < length cs. year_at_u U (Some ((c # cs) ! j)) (drop j cs))
      = (\<exists>j < length cs. year_at_u U (if j = 0 then Some c else Some (cs ! (j - 1))) (drop j cs))"
    by (intro ex_cong1) (auto simp: nth_Cons')
  finally show ?case
    using Cons.IH[of "Some c"] by simp
qed

lemma search_year_u_iff: "search_year_u U s = contains_delimited_year_u U s"
proof -
  let ?A = "\<lambda>i. year_at_u U (if i = 0 then None else Some (s ! (i - 1))) (drop i s)"
  let ?B = "\<lambda>i. year_digits_u U (slice s i (i + 4))
                \<and> (i = 0 \<or> \<not> word_char_at_u U s (i - 1)) \<and> \<not> word_char_at_u U s (i + 4)"
  have e: "\<And>i. i < length s \<Longrightarrow> ?A i = ?B i"
    by (auto simp: year_at_u_iff slice_def word_char_at_u_def add.commute)
  have "search_year_u U s = (\<exists>i < length s. ?A i)"
    unfolding search_year_u_def by (rule year_scan_u_iff)
  also have "\<dots> = (\<exists>i < length s. ?B i)"
    using e by blast
  also have "\<dots> = contains_delimited_year_u U s"
    unfolding contains_delimited_year_u_def by (simp add: Bex_def)
  finally show ?thesis .
qed

lemma has_word_u_iff:
  "(1 \<le> length (filter (\<lambda>t. 3 \<le> length t) (split_nonalpha_u pw))) = has_word_token_u pw"
proof -
  have "\<And>P xs. (1 \<le> length (filter P xs)) = (\<exists>x \<in> set xs. P x)"
    by (metis One_nat_def Suc_le_eq filter_empty_conv length_greater_0_conv)
  then show ?thesis by (simp add: has_word_token_u_def)
qed

lemma has_word_plus_dateish_u_result:
  "has_word_plus_dateish_u U pw = Inr (word_plus_date_delimited_year_u U pw)"
proof -
  have m: "\<And>low. list_ex (\<lambda>m. sublist (codes m) low) months = contains_month_u low"
    by (simp add: contains_month_u_def list_ex_iff)
  show ?thesis
    unfolding has_word_plus_dateish_u_def
    by (simp only: Let_def has_word_u_iff m search_year_u_iff linear_sequence_length_u_eq
        and_then_def sum.case word_plus_date_delimited_year_u_def)
qed

text \<open>On the strings of the model, the detector of the validator and the detector on
  every string are the same function, whatever the tables above U+00FF.\<close>

lemma ord_less_256: "ord c < 256"
proof -
  have "of_char c mod 256 = (of_char c :: nat)" by (rule of_char_mod_256)
  then have "(of_char c :: nat) < 256" by (metis mod_less_divisor zero_less_numeral)
  then show ?thesis by (simp add: ord_def)
qed

lemma ord_eq_iff: "(ord a = ord b) = (a = b)"
  by (simp add: ord_def)

lemma codes_eq_iff: "(codes a = codes b) = (a = b)"
  unfolding codes_def by (rule inj_map_eq_map) (simp add: inj_on_def ord_eq_iff)

lemma codes_simps:
  "codes [] = []" "codes (c # cs) = ord c # codes cs" "codes (a @ b) = codes a @ codes b"
  "codes (rev a) = rev (codes a)" "length (codes a) = length a"
  by (simp_all add: codes_def rev_map)

lemma ord_chr: "n < 256 \<Longrightarrow> ord (chr n) = n"
  by (simp add: ord_def chr_def)

lemma isalpha_codes: "isalpha_u U (ord c) = isalpha c"
  using ord_less_256[of c]
  by (auto simp: isalpha_u_def isalpha_def islower_def isupper_def in_range_def between_def)

lemma tolower_codes: "tolower_u U (ord c) = [ord (lower_char c)]"
  using ord_less_256[of c]
  by (auto simp: tolower_u_def lower_char_def isupper_def in_range_def between_def ord_chr)

lemma lower_scan_codes: "lower_scan U seen (codes s) = codes (lower s)"
proof (induction s arbitrary: seen)
  case Nil
  then show ?case by (simp add: codes_simps lower_def)
next
  case (Cons c cs)
  have "ord c \<noteq> 931" using ord_less_256[of c] by simp
  with Cons show ?case
    by (simp add: codes_simps lower_def tolower_codes)
qed

lemma lower_codes: "lower_u U (codes s) = codes (lower s)"
  by (simp add: lower_u_def lower_scan_codes)

lemma re_digit_codes: "re_digit_u U (ord c) = re_digit c"
  using ord_less_256[of c]
  by (simp add: re_digit_u_def re_digit_def in_range_def between_def)

lemma re_word_codes: "re_word_u U (ord c) = re_word c"
  using ord_less_256[of c]
  by (auto simp: re_word_u_def re_word_def isalpha_codes isdigit_def in_range_def between_def)

lemma re_alpha_codes: "re_alpha_u (ord c) = re_alpha c"
  by (simp add: re_alpha_u_def re_alpha_def re_upper_def re_lower_def in_range_def between_def)

lemma word_boundary_codes:
  "word_boundary_u U (map_option ord a) (map_option ord b) = word_boundary a b"
  by (simp add: word_boundary_u_def word_boundary_def re_word_codes split: option.splits)

lemma year_at_codes: "year_at_u U (map_option ord prev) (codes s) = year_at prev s"
proof -
  have pair: "\<And>c1 c2 y. ([ord c1, ord c2] = codes y) = ([c1, c2] = y)"
    using codes_eq_iff[of "[_, _]"] by (simp add: codes_simps)
  have wb: "\<And>a b. word_boundary_u U (Some (ord a)) (map_option ord b) = word_boundary (Some a) b"
    "\<And>b. word_boundary_u U (map_option ord prev) (Some (ord b)) = word_boundary prev (Some b)"
    using word_boundary_codes[of U "Some _"] word_boundary_codes[of U _ "Some _"] by simp_all
  have wn: "\<And>a. word_boundary_u U (Some (ord a)) None = word_boundary (Some a) None"
    "\<And>a b. word_boundary_u U (Some (ord a)) (Some (ord b)) = word_boundary (Some a) (Some b)"
    using wb(1)[of _ None] wb(1)[of _ "Some _"] by simp_all
  show ?thesis
    by (simp add: year_at_u_def year_at_def codes_simps pair wb wn re_digit_codes ord_eq_iff
        split: list.splits)
qed

lemma year_scan_codes: "year_scan_u U (map_option ord prev) (codes s) = year_scan prev s"
proof (induction s arbitrary: prev)
  case Nil
  then show ?case by (simp add: codes_simps)
next
  case (Cons c cs)
  have "year_at_u U (map_option ord prev) (ord c # codes cs) = year_at prev (c # cs)"
    using year_at_codes[of U prev "c # cs"] by (simp add: codes_simps)
  moreover have "year_scan_u U (Some (ord c)) (codes cs) = year_scan (Some c) cs"
    using Cons.IH[of "Some c"] by simp
  ultimately show ?case by (simp add: codes_simps)
qed

lemma search_year_codes: "search_year_u U (codes s) = search_year s"
  using year_scan_codes[of U None s] by (simp add: search_year_u_def search_year_def)

lemma prefix_codes: "prefix (codes a) (codes b) = prefix a b"
proof (induction a arbitrary: b)
  case Nil
  then show ?case by (simp add: codes_simps)
next
  case (Cons x a)
  then show ?case by (cases b) (simp_all add: codes_simps ord_eq_iff)
qed

lemma sublist_codes: "sublist (codes a) (codes b) = sublist a b"
proof (induction b)
  case Nil
  then show ?case using codes_eq_iff[of a "[]"] by (simp add: codes_simps)
next
  case (Cons y b)
  have "prefix (codes a) (ord y # codes b) = prefix a (y # b)"
    using prefix_codes[of a "y # b"] by (simp add: codes_simps)
  with Cons show ?case by (simp add: codes_simps sublist_Cons_right)
qed

lemma split_scan_codes:
  "split_scan_u (codes s) (codes cur) b = map codes (split_scan s cur b)"
proof (induction s arbitrary: cur b)
  case Nil
  then show ?case by (simp add: codes_simps)
next
  case (Cons c cs)
  from Cons[of "c # cur"] Cons[of cur] Cons[of "[]"] show ?case
    by (simp add: codes_simps re_alpha_codes)
qed

lemma split_nonalpha_codes: "split_nonalpha_u (codes s) = map codes (split_nonalpha s)"
  using split_scan_codes[of s "[]" False] by (simp add: split_nonalpha_u_def split_nonalpha_def codes_simps)

lemma norm_codes: "concat (map (norm_u U) (codes pw)) = codes (map (\<lambda>ch. if isalpha ch then lower_char ch else ch) pw)"
proof (induction pw)
  case Nil
  then show ?case by (simp add: codes_simps)
next
  case (Cons c cs)
  have "lower_u U [ord c] = [ord (lower_char c)]"
    using lower_codes[of U "[c]"] by (simp add: codes_simps lower_def)
  with Cons show ?case
    by (simp add: codes_simps norm_u_def isalpha_codes)
qed

lemma lls_body_codes: "lls_body_u (codes s) i st = lls_body s i st"
  by (cases st)
    (simp add: lls_body_u_def lls_body_def getitem_def and_then_def step_u_def step_def
      codes_simps codes_def)

lemma longest_linear_sequence_codes:
  "longest_linear_sequence_u U (codes pw) = longest_linear_sequence pw"
proof -
  have e: "(codes pw = []) = (pw = [])" using codes_eq_iff[of pw "[]"] by (simp add: codes_simps)
  have b: "\<And>s. lls_body_u (codes s) = lls_body s"
    by (intro ext) (rule lls_body_codes)
  show ?thesis
    unfolding longest_linear_sequence_u_def longest_linear_sequence_def
    by (simp only: e norm_codes Let_def b codes_simps length_map)
qed

lemma has_word_plus_dateish_codes:
  "has_word_plus_dateish_u U (codes pw) = has_word_plus_dateish pw"
proof -
  have f: "length (filter (\<lambda>t. 3 \<le> length t) (map codes (split_nonalpha pw)))
         = length (filter (\<lambda>t. 3 \<le> length t) (split_nonalpha pw))"
    by (simp add: filter_map comp_def codes_simps)
  show ?thesis
    unfolding has_word_plus_dateish_u_def has_word_plus_dateish_def
    by (simp only: Let_def lower_codes search_year_codes sublist_codes split_nonalpha_codes f
        longest_linear_sequence_codes)
qed

text \<open>
  Claim C6 says that the word-plus-dateish detector returns true if and only if
  (a) splitting at the runs of characters that are not letters leaves a token of
  length at least 3, (b) the candidate contains a four-digit year from 1900 to 2099
  or a three-letter English month abbreviation as a substring, case ignored, and
  (c) the longest linear sequence is below 4. The detector searches the year with
  the pattern \<^verbatim>\<open>\b(19|20)\d{2}\b\<close>, which does not match a year that touches a
  word character: the candidate \<open>hello2025\<close> satisfies (a), (b) and (c), and the
  detector returns \<open>False\<close>.
\<close>

theorem word_plus_dateish_joined_year:
  "word_plus_date_any_year_u arabic_indic_digits (codes ''hello2025'')
   \<and> has_word_plus_dateish_u arabic_indic_digits (codes ''hello2025'') = Inr False
   \<and> has_word_plus_dateish ''hello2025'' = Inr False"
  by code_simp

text \<open>
  Claim C6, amended: the word-plus-dateish detector returns true if and only if
  (a) splitting the candidate at the runs of characters other than the ASCII
  letters A-Z and a-z leaves a token of length at least 3, (b) the lower-cased
  candidate contains \<open>19\<close> or \<open>20\<close> followed by two decimal digits (of any script,
  as \<^verbatim>\<open>\d\<close> matches them) with no word character directly before it and none
  directly after it (a word character is what \<^verbatim>\<open>\w\<close> matches: a character that is
  alphanumeric in the sense of \<^verbatim>\<open>str.isalnum\<close>, which includes numeric characters
  such as the fraction one half, or an underscore), or the lower-cased candidate
  contains a three-letter English month abbreviation as a substring, and (c) the
  longest linear sequence of the candidate is below 4. This holds for every
  string and whatever the Unicode tables above U+00FF are, and so for the detector
  of the validator on the strings \<open>s\<close> of the model.
\<close>

theorem word_plus_dateish_delimited_year:
  "has_word_plus_dateish_u U pw = Inr (word_plus_date_delimited_year_u U pw)
   \<and> has_word_plus_dateish s = Inr (word_plus_date_delimited_year_u U (codes s))"
  using has_word_plus_dateish_u_result[of U pw] has_word_plus_dateish_u_result[of U "codes s"]
    has_word_plus_dateish_codes[of U s]
  by simp

theorem word_plus_dateish_delimited_year_witness:
  "has_word_plus_dateish_u arabic_indic_digits (codes ''hello-2025'') = Inr True
   \<and> has_word_plus_dateish ''hello-2025'' = Inr True
   \<and> has_word_plus_dateish_u arabic_indic_digits (codes ''hello-20'' @ [1634, 1637]) = Inr True
   \<and> has_word_plus_dateish_u arabic_indic_digits (codes ''hello2025'') = Inr False
   \<and> has_word_plus_dateish_u arabic_indic_digits (codes ''hello-2025'' @ [189]) = Inr False
   \<and> has_word_plus_dateish_u arabic_indic_digits ([233, 233, 233] @ codes ''-2025'') = Inr False"
proof -
  have a: "word_plus_date_delimited_year_u arabic_indic_digits (codes ''hello-2025'')"
    by code_simp
  have b: "word_plus_date_delimited_year_u arabic_indic_digits (codes ''hello-20'' @ [1634, 1637])"
    by code_simp
  have c: "\<not> word_plus_date_delimited_year_u arabic_indic_digits (codes ''hello2025'')"
    by code_simp
  have d: "\<not> word_plus_date_delimited_year_u arabic_indic_digits (codes ''hello-2025'' @ [189])"
    by code_simp
  have e: "\<not> word_plus_date_delimited_year_u arabic_indic_digits ([233, 233, 233] @ codes ''-2025'')"
    by code_simp
  show ?thesis
    using word_plus_dateish_delimited_year[of arabic_indic_digits "codes ''hello-2025''" "''hello-2025''"]
      word_plus_dateish_delimited_year[of arabic_indic_digits "codes ''hello-20'' @ [1634, 1637]"]
      word_plus_dateish_delimited_year[of arabic_indic_digits "codes ''hello2025''"]
      word_plus_dateish_delimited_year[of arabic_indic_digits "codes ''hello-2025'' @ [189]"]
      word_plus_dateish_delimited_year[of arabic_indic_digits "[233, 233, 233] @ codes ''-2025''"]
      a b c d e
    by simp
qed

subsection \<open>CamelCase segments\<close>










subsection \<open>Totality\<close>

text \<open>
  Claim C8: the validator is total. For every input string \<open>pw\<close>, the empty string
  included, it returns a decision: a boolean together with one of the seven reason
  codes, and no exception. The division for the ambiguous ratio and the detectors
  return a value on every string \<open>s\<close>.
\<close>

theorem validator_total:
  "(\<exists>ok info r. validate_details pw = Inr (ok, info) \<and> info ''reason'' = Some (VStr r)
       \<and> r \<in> set reason_codes)
   \<and> (\<exists>ok. is_valid_password pw = Inr ok)
   \<and> (\<exists>ratio. truediv (sum_list (map (\<lambda>ch. if ch \<in> set ambiguous_set then 1 else 0) s))
                  (max 1 (length s)) = Inr ratio)
   \<and> (\<exists>n. longest_linear_sequence s = Inr n)
   \<and> (\<exists>n. max_same_char_run s = Inr n)
   \<and> (\<exists>b. looks_like_consonant_smash s = Inr b)
   \<and> (\<exists>b. has_word_plus_dateish s = Inr b)"
proof -
  from validate_details_returns[of pw] obtain ok info r where
    v: "validate_details pw = Inr (ok, info)" "info ''reason'' = Some (VStr r)" "r \<in> set reason_codes"
    by blast
  then have "is_valid_password pw = Inr ok"
    by (simp add: is_valid_password_def and_then_def)
  moreover have "\<exists>ratio. truediv (sum_list (map (\<lambda>ch. if ch \<in> set ambiguous_set then 1 else 0) s))
                  (max 1 (length s)) = Inr ratio"
    by (simp add: truediv_def)
  ultimately show ?thesis
    using v longest_linear_sequence_total[of s] max_same_char_run_total[of s]
      looks_like_consonant_smash_total[of s] has_word_plus_dateish_total[of s]
    by blast
qed

theorem validator_total_witness:
  "\<exists>ok info r. validate_details [] = Inr (ok, info) \<and> info ''reason'' = Some (VStr r)
       \<and> r \<in> set reason_codes"
  using validator_total[of "[]" "[]"] by blast

subsection \<open>The flag and the reason code\<close>

text \<open>
  Claim C10: for every input string, the detailed validator returns \<open>True\<close> if
  and only if the reason code in the dictionary it returns is \<open>accepted\<close>, and
  that reason code is one of \<open>too_short\<close>, \<open>banned_term\<close>, \<open>too_ambiguous\<close>,
  \<open>too_sequential\<close>, \<open>no_intent_signal\<close>, \<open>low_score\<close> and \<open>accepted\<close>.
\<close>

theorem flag_matches_reason:
  "\<exists>ok info r. validate_details pw = Inr (ok, info) \<and> info ''reason'' = Some (VStr r)
      \<and> r \<in> set reason_codes \<and> (ok \<longleftrightarrow> r = ''accepted'')"
  by (rule validate_details_returns)

theorem flag_matches_reason_witness:
  "\<exists>ok info r. validate_details ''BlueSky'' = Inr (ok, info) \<and> info ''reason'' = Some (VStr r)
      \<and> r \<in> set reason_codes \<and> (ok \<longleftrightarrow> r = ''accepted'')"
  by (rule flag_matches_reason)

subsection \<open>Surrounding whitespace\<close>

lemma strip_idem: "strip (strip s) = strip s"
proof -
  define d where "d = dropWhile isspace s"
  define e where "e = dropWhile isspace (rev d)"
  have s: "strip s = rev e" by (simp add: strip_def d_def e_def)
  show ?thesis
  proof (cases "e = []")
    case True
    with s have z: "strip s = []" by simp
    have "strip [] = []" by (simp add: strip_def)
    then show ?thesis unfolding z .
  next
    case False
    then have he: "\<not> isspace (hd e)" unfolding e_def by (rule hd_dropWhile)
    from False have dne: "d \<noteq> []" by (auto simp: e_def)
    then have hd: "\<not> isspace (hd d)" unfolding d_def by (rule hd_dropWhile)
    have "rev d = takeWhile isspace (rev d) @ e" by (simp add: e_def)
    with False have "last (rev d) = last e" by (metis last_appendR)
    with dne have le: "last e = hd d" by (simp add: last_rev)
    from False have "hd (rev e) = last e" by (simp add: hd_rev)
    with le hd have "\<not> isspace (hd (rev e))" by simp
    then have 1: "dropWhile isspace (rev e) = rev e" by (simp add: dropWhile_eq_self_iff)
    from he have 2: "dropWhile isspace e = e" by (simp add: dropWhile_eq_self_iff)
    show ?thesis unfolding s by (simp add: strip_def 1 2)
  qed
qed

text \<open>
  Claim C9: the decision does not change when the leading and the trailing
  whitespace of the input is removed, since every test is made on the trimmed
  string; in particular an input of raw length at least 8 whose trimmed length is
  below 8 is rejected with the reason code \<open>too_short\<close>.
\<close>

theorem whitespace_invariance:
  "validate_details (strip s) = validate_details s
   \<and> is_valid_password (strip s) = is_valid_password s
   \<and> (8 \<le> length s \<and> length (strip s) < 8 \<longrightarrow>
        is_valid_password s = Inr False
        \<and> reason_of (validate_details s) = Some (VStr ''too_short''))"
proof -
  have v: "validate_details (strip s) = validate_details s"
    by (simp add: validate_details_def strip_idem)
  have "length (strip s) < 8 \<Longrightarrow> flag_of (validate_details s) = Some False"
    using gate_too_short[of s] by simp
  then have "length (strip s) < 8 \<Longrightarrow> is_valid_password s = Inr False"
    by (cases "validate_details s") (auto simp: is_valid_password_def and_then_def flag_of_def)
  with v gate_too_short[of s] show ?thesis
    by (simp add: is_valid_password_def)
qed

theorem whitespace_invariance_witness:
  "8 \<le> length ''  Blue  '' \<and> length (strip ''  Blue  '') < 8
   \<and> validate_details ''  Blue  '' = validate_details ''Blue''
   \<and> is_valid_password ''  Blue  '' = Inr False
   \<and> reason_of (validate_details ''  Blue  '') = Some (VStr ''too_short'')"
proof -
  have h: "8 \<le> length ''  Blue  '' \<and> length (strip ''  Blue  '') < 8"
    by code_simp
  have t: "strip ''  Blue  '' = ''Blue''"
    by code_simp
  show ?thesis
    using whitespace_invariance[of "''  Blue  ''"] h unfolding t by simp
qed

subsection \<open>The candidate \<open>qwerty12345\<close>\<close>

text \<open>
  Claim C5 says that the candidate \<open>qwerty12345\<close> is rejected with the reason code
  \<open>too_sequential\<close>. The validator does reject it, but the candidate contains the
  banned term \<open>qwerty\<close>, and the banned-term test comes before the sequence test:
  the reason code is not \<open>too_sequential\<close>.
\<close>

theorem qwerty12345_not_too_sequential:
  "reason_of (validate_details ''qwerty12345'') \<noteq> Some (VStr ''too_sequential'')"
  by code_simp

text \<open>
  Claim C5, amended: the candidate \<open>qwerty12345\<close> is rejected with the reason code
  \<open>banned_term\<close>.
\<close>

theorem qwerty12345_banned_term:
  "flag_of (validate_details ''qwerty12345'') = Some False
   \<and> reason_of (validate_details ''qwerty12345'') = Some (VStr ''banned_term'')"
  by code_simp

end
